theory Spec2Isabelle
  imports Main "HOL-Library.AList"
begin

section \<open>Python values shared by all components\<close>

text \<open>
  Every \<^verbatim>\<open>raise\<close> and every failing \<^verbatim>\<open>assert\<close> of the source is a value of
  \<open>error\<close>; a function that can fail returns \<open>error + 'a\<close> with \<open>Inl\<close> for the failure.
\<close>

datatype error =
  AssertionError | KeyError | IndexError | ValueError | AttributeError | TypeError

definition err_bind :: "error + 'a \<Rightarrow> ('a \<Rightarrow> error + 'b) \<Rightarrow> error + 'b" where
  "err_bind m f = (case m of Inl e \<Rightarrow> Inl e | Inr x \<Rightarrow> f x)"

text \<open>
  A Python \<^verbatim>\<open>dict\<close> is an association list in insertion order: \<open>map_of\<close> reads it,
  \<open>AList.update\<close> writes it (an existing key keeps its position, a new key goes last).
\<close>

type_synonym ('k, 'v) dict = "('k \<times> 'v) list"

definition dict_get :: "('k, 'v) dict \<Rightarrow> 'k \<Rightarrow> error + 'v" where
  "dict_get d k = (case map_of d k of None \<Rightarrow> Inl KeyError | Some v \<Rightarrow> Inr v)"

definition dict_values :: "('k, 'v) dict \<Rightarrow> 'v list" where
  "dict_values d = map snd d"

text \<open>\<^verbatim>\<open>xs[i]\<close> for a Python list: negative indices count from the end.\<close>

definition py_index :: "'a list \<Rightarrow> int \<Rightarrow> error + 'a" where
  "py_index xs i =
     (if 0 \<le> i \<and> i < int (length xs) then Inr (xs ! nat i)
      else if i < 0 \<and> - int (length xs) \<le> i then Inr (xs ! nat (int (length xs) + i))
      else Inl IndexError)"

text \<open>\<^verbatim>\<open>s.split(c)\<close> for a separator of one character.\<close>

fun split_on :: "char \<Rightarrow> string \<Rightarrow> string list" where
  "split_on c [] = [[]]"
| "split_on c (x # xs) =
     (if x = c then [] # split_on c xs
      else (case split_on c xs of [] \<Rightarrow> [[x]] | w # ws \<Rightarrow> (x # w) # ws))"

text \<open>\<^verbatim>\<open>sub in s\<close> for strings.\<close>

fun starts_with :: "string \<Rightarrow> string \<Rightarrow> bool" where
  "starts_with s [] = True"
| "starts_with [] (p # ps) = False"
| "starts_with (c # cs) (p # ps) = (c = p \<and> starts_with cs ps)"

fun contains :: "string \<Rightarrow> string \<Rightarrow> bool" where
  "contains [] sub = starts_with [] sub"
| "contains (c # cs) sub = (starts_with (c # cs) sub \<or> contains cs sub)"

text \<open>
  \<^verbatim>\<open>str.isspace\<close> on the code points below 256, \<^verbatim>\<open>s.strip()\<close>, and the decimal
  \<^verbatim>\<open>int(s)\<close>: surrounding white space, an optional sign, digits with single underscores
  between them; anything else is a \<^verbatim>\<open>ValueError\<close>. The white space that \<^verbatim>\<open>int\<close> skips
  is narrower than that of \<^verbatim>\<open>strip\<close>: the four separators U+001C to U+001F are white
  space for \<^verbatim>\<open>strip\<close> and an error for \<^verbatim>\<open>int\<close>.
\<close>

definition is_space :: "char \<Rightarrow> bool" where
  "is_space c = (let n = of_char c :: nat in
     (9 \<le> n \<and> n \<le> 13) \<or> (28 \<le> n \<and> n \<le> 32) \<or> n = 133 \<or> n = 160)"

definition strip :: "string \<Rightarrow> string" where
  "strip s = rev (dropWhile is_space (rev (dropWhile is_space s)))"

definition is_digit :: "char \<Rightarrow> bool" where
  "is_digit c = (let n = of_char c :: nat in 48 \<le> n \<and> n \<le> 57)"

fun digits_ok :: "string \<Rightarrow> bool" where
  "digits_ok [] = False"
| "digits_ok [c] = is_digit c"
| "digits_ok (c # d # r) =
     (if is_digit c then digits_ok (d # r)
      else c = CHR ''_'' \<and> is_digit d \<and> digits_ok (d # r))"

fun digits_value :: "int \<Rightarrow> string \<Rightarrow> int" where
  "digits_value acc [] = acc"
| "digits_value acc (c # r) =
     (if is_digit c then digits_value (10 * acc + (int (of_char c) - 48)) r
      else digits_value acc r)"

definition is_int_space :: "char \<Rightarrow> bool" where
  "is_int_space c = (let n = of_char c :: nat in
     (9 \<le> n \<and> n \<le> 13) \<or> n = 32 \<or> n = 133 \<or> n = 160)"

definition py_int :: "string \<Rightarrow> error + int" where
  "py_int s =
     (let t = rev (dropWhile is_int_space (rev (dropWhile is_int_space s)));
          neg = (t \<noteq> [] \<and> hd t = CHR ''-'');
          body = (if t \<noteq> [] \<and> (hd t = CHR ''-'' \<or> hd t = CHR ''+'') then tl t else t)
      in if body \<noteq> [] \<and> is_digit (hd body) \<and> digits_ok body
         then Inr ((if neg then - 1 else 1) * digits_value 0 body)
         else Inl ValueError)"

section \<open>The operation tree\<close>

text \<open>
  The nodes of the host library that the generator builds and the emitter reads. An
  operand refers to the operation that produces it (\<^verbatim>\<open>val.owner\<close>), so an SSA value
  that is a result carries its owner and its index among the owner's results; a block
  argument has no owning operation. Two values are the same object when they are the same
  term, and \<open>AllocaOp\<close> carries a label that stands for the identity of the allocation.
  The library compares objects: operations that are built alike, such as the zero constants
  of two guards or the allocations of one name in the two subroutines of a suite, are two
  objects there and one term here. The properties below are about one subroutine and about
  values that differ as terms.
  A region holds at most one block, given by the list of its operations, and \<open>None\<close> is a
  region without blocks.
\<close>

datatype ty =
    Float32Type
  | Float64Type
  | IntegerType nat
  | MemRefType ty "int list"
  | OtherType string

datatype attr =
    IntAttr int
  | IntegerAttr int ty
  | FloatAttr bool string
  | StringAttr string
  | DenseIntOrFPElementsAttr ty "attr list"
  | OtherAttr string

datatype ssa =
    OpResult op nat
  | BlockArgument nat
and op =
    AllocaOp string ty "int list"
  | ConstantOp attr
  | LoadOp ssa "ssa list"
  | StoreOp ssa ssa "ssa list"
  | CopyOp ssa ssa
  | CmpiOp int ssa ssa
  | CallOp string "ssa list" "ty list"
  | IfOp ssa "ty list" "op list" "op list option"
  | YieldOp "ssa list"
  | ReturnOp "ssa list"
  | FuncOp string "ty list" "ty list" "op list option"
  | ModuleOp "string option" "op list"
  | OtherOp string "ssa list"

text \<open>\<^verbatim>\<open>SSAValue.get(op)\<close>: the single result of an operation.\<close>

definition result :: "op \<Rightarrow> ssa" where
  "result p = OpResult p 0"

fun result_type :: "op \<Rightarrow> error + ty" where
  "result_type (AllocaOp l t shape) = Inr (MemRefType t shape)"
| "result_type _ = Inl IndexError"

section \<open>Metadata and suite descriptors\<close>

text \<open>
  The descriptor classes of \<^verbatim>\<open>transforms/util/ccpp_descriptors.py\<close>. \<open>CCPPItem\<close> is the
  base class with the attribute dictionary; the three subclasses extend it.
\<close>

record CCPPItem =
  attrs :: "(string, string) dict"

record CCPPArgument = CCPPItem +
  name :: string

record CCPPArgumentTable = CCPPItem +
  function_arguments :: "(string, CCPPArgument) dict"

record CCPPTableProperties = CCPPItem +
  arg_tables :: "(string, CCPPArgumentTable) dict"

definition getAttr :: "'a CCPPItem_scheme \<Rightarrow> string \<Rightarrow> error + string" where
  "getAttr item key = (case map_of (attrs item) key of None \<Rightarrow> Inl AssertionError | Some v \<Rightarrow> Inr v)"

definition hasAttr :: "'a CCPPItem_scheme \<Rightarrow> string \<Rightarrow> bool" where
  "hasAttr item key = (map_of (attrs item) key \<noteq> None)"

definition getFunctionArguments :: "CCPPArgumentTable \<Rightarrow> CCPPArgument list" where
  "getFunctionArguments t = dict_values (function_arguments t)"

definition getArgTable :: "CCPPTableProperties \<Rightarrow> string \<Rightarrow> error + CCPPArgumentTable" where
  "getArgTable p v = dict_get (arg_tables p) v"

text \<open>\<open>XMLSuite\<close>, \<open>XMLGroup\<close> and \<open>XMLScheme\<close> are all an \<open>XMLSuiteBase\<close>: attributes and children.\<close>

datatype XMLSuiteBase = XMLSuiteBase (attributes: "(string, string) dict") (children: "XMLSuiteBase list")

fun err_map :: "('a \<Rightarrow> error + 'b) \<Rightarrow> 'a list \<Rightarrow> error + 'b list" where
  "err_map f [] = Inr []"
| "err_map f (x # xs) = err_bind (f x) (\<lambda>y. err_bind (err_map f xs) (\<lambda>ys. Inr (y # ys)))"

section \<open>Type conversions (\<^verbatim>\<open>transforms/util/typing.py\<close>)\<close>

definition TEXT_TYPE_TO_MLIR_TYPE :: "(string, ty) dict" where
  "TEXT_TYPE_TO_MLIR_TYPE =
     [(''character'', IntegerType 8), (''integer'', IntegerType 32), (''real'', Float64Type)]"

definition getBaseType :: "string \<Rightarrow> error + ty" where
  "getBaseType text_type =
     (case map_of TEXT_TYPE_TO_MLIR_TYPE text_type of None \<Rightarrow> Inl AssertionError | Some t \<Rightarrow> Inr t)"

definition convert :: "string \<Rightarrow> string option \<Rightarrow> error + ty" where
  "convert text_type kind =
     err_bind (getBaseType text_type) (\<lambda>base_type.
     err_bind (case kind of
                 None \<Rightarrow> Inr []
               | Some k \<Rightarrow>
                   if contains k ''len=''
                   then err_bind (py_index (split_on CHR ''='' k) 1) (\<lambda>s.
                        err_bind (py_int s) (\<lambda>n. Inr [n]))
                   else Inr []) (\<lambda>shape.
     Inr (MemRefType base_type shape)))"

section \<open>The signature synthesizer (\<^verbatim>\<open>transforms/suite_meta.py\<close>)\<close>

text \<open>The loop body of \<^verbatim>\<open>generate_function_signature\<close>, on the two lists it appends to.\<close>

definition signature_step :: "CCPPArgument \<Rightarrow> ty list \<times> ty list \<Rightarrow> error + (ty list \<times> ty list)" where
  "signature_step fn_arg acc =
     err_bind (getAttr fn_arg ''type'') (\<lambda>t.
     err_bind (if hasAttr fn_arg ''kind''
               then err_bind (getAttr fn_arg ''kind'') (\<lambda>k. Inr (Some k)) else Inr None) (\<lambda>kind.
     err_bind (convert t kind) (\<lambda>arg_type.
       if hasAttr fn_arg ''intent'' then
         err_bind (getAttr fn_arg ''intent'') (\<lambda>intent.
           if intent = ''in'' then Inr (fst acc @ [arg_type], snd acc)
           else if intent = ''out'' then Inr (fst acc, snd acc @ [arg_type])
           else if intent = ''inout'' then Inr (fst acc @ [arg_type], snd acc @ [arg_type])
           else Inl AssertionError)
       else Inr (fst acc @ [arg_type], snd acc @ [arg_type]))))"

fun signature_loop :: "CCPPArgument list \<Rightarrow> ty list \<times> ty list \<Rightarrow> error + (ty list \<times> ty list)" where
  "signature_loop [] acc = Inr acc"
| "signature_loop (a # as) acc = err_bind (signature_step a acc) (signature_loop as)"

definition generate_function_signature :: "CCPPArgumentTable \<Rightarrow> error + op" where
  "generate_function_signature arg_table =
     err_bind (signature_loop (getFunctionArguments arg_table) ([], [])) (\<lambda>(in_args, out_args).
     err_bind (getAttr arg_table ''name'') (\<lambda>n.
     Inr (FuncOp n in_args out_args None)))"

section \<open>The CAP generation engine (\<^verbatim>\<open>transforms/suite_cap.py\<close>)\<close>

definition getSchemeNames :: "XMLSuiteBase \<Rightarrow> error + string list" where
  "getSchemeNames suite_description =
     err_bind (err_map (\<lambda>group. err_map (\<lambda>scheme. dict_get (attributes scheme) ''name'')
                                    (children group))
                       (children suite_description)) (\<lambda>nss. Inr (concat nss))"

definition getArgumentTable ::
  "(string, CCPPTableProperties) dict \<Rightarrow> string \<Rightarrow> string \<Rightarrow> error + CCPPArgumentTable" where
  "getArgumentTable meta_data scheme_name subroutine_name =
     (case map_of meta_data scheme_name of
        None \<Rightarrow> Inl AssertionError
      | Some p \<Rightarrow> getArgTable p subroutine_name)"

text \<open>
  \<^verbatim>\<open>generateVariableCreation\<close>, first loop: the inner loop over the arguments of one table,
  then the outer loop over the scheme names, both on the dictionary \<^verbatim>\<open>args_required\<close>.
\<close>

fun register_args ::
  "CCPPArgument list \<Rightarrow> (string, CCPPArgument) dict \<Rightarrow> error + (string, CCPPArgument) dict" where
  "register_args [] args_required = Inr args_required"
| "register_args (fn_arg # rest) args_required =
     (case map_of args_required (name fn_arg) of
        Some first \<Rightarrow>
          err_bind (getAttr fn_arg ''type'') (\<lambda>t.
          err_bind (getAttr first ''type'') (\<lambda>t'.
            if t = t' then register_args rest args_required else Inl AssertionError))
      | None \<Rightarrow> register_args rest (AList.update (name fn_arg) fn_arg args_required))"

fun required_args ::
  "string list \<Rightarrow> (string, CCPPArgumentTable) dict \<Rightarrow> (string, CCPPArgument) dict
     \<Rightarrow> error + (string, CCPPArgument) dict" where
  "required_args [] tables args_required = Inr args_required"
| "required_args (scheme_name # rest) tables args_required =
     err_bind (dict_get tables scheme_name) (\<lambda>arg_table.
     err_bind (register_args (getFunctionArguments arg_table) args_required)
              (required_args rest tables))"

text \<open>Second loop: one allocation per required argument.\<close>

definition alloc_for :: "CCPPArgument \<Rightarrow> error + op" where
  "alloc_for arg =
     err_bind (getAttr arg ''type'') (\<lambda>arg_type.
     err_bind (if arg_type = ''character''
               then err_bind (getAttr arg ''kind'') (\<lambda>k.
                    err_bind (py_index (split_on CHR ''='' k) 1) (\<lambda>s.
                    err_bind (py_int s) (\<lambda>n. Inr [n])))
               else Inr []) (\<lambda>data_shape.
     err_bind (getBaseType arg_type) (\<lambda>base.
     Inr (AllocaOp (name arg) base data_shape))))"

fun alloc_loop :: "CCPPArgument list \<Rightarrow> (string, op) dict \<Rightarrow> error + (string, op) dict" where
  "alloc_loop [] alloc_ops = Inr alloc_ops"
| "alloc_loop (arg # rest) alloc_ops =
     err_bind (alloc_for arg) (\<lambda>a. alloc_loop rest (AList.update (name arg) a alloc_ops))"

definition generateVariableCreation ::
  "string list \<Rightarrow> (string, CCPPArgumentTable) dict \<Rightarrow> error + (string, op) dict" where
  "generateVariableCreation scheme_names tables =
     err_bind (required_args scheme_names tables []) (\<lambda>args_required.
     alloc_loop (dict_values args_required) [])"

definition generateVariableInitialisations :: "(string, op) dict \<Rightarrow> error + op list" where
  "generateVariableInitialisations data_ops =
     (let err_const = ConstantOp (IntegerAttr 0 (IntegerType 32)) in
      err_bind (dict_get data_ops ''errflg'') (\<lambda>errflg.
      Inr [err_const, StoreOp (result err_const) (result errflg) []]))"

text \<open>
  \<^verbatim>\<open>generateSchemeSubroutineCallOps\<close>: the loop over the arguments on the three lists
  \<^verbatim>\<open>in_ssa\<close>, \<^verbatim>\<open>out_types\<close>, \<^verbatim>\<open>out_tracking\<close>, then the call, the copies and the guard.
\<close>

fun call_args ::
  "CCPPArgument list \<Rightarrow> (string, op) dict \<Rightarrow> ssa list \<times> ty list \<times> op list
     \<Rightarrow> error + (ssa list \<times> ty list \<times> op list)" where
  "call_args [] data_ops acc = Inr acc"
| "call_args (arg # rest) data_ops (in_ssa, out_types, out_tracking) =
     err_bind (getAttr arg ''intent'') (\<lambda>intent.
       if intent = ''in'' \<or> intent = ''inout'' then
         err_bind (dict_get data_ops (name arg)) (\<lambda>slot.
         call_args rest data_ops (in_ssa @ [result slot], out_types, out_tracking))
       else if intent = ''out'' then
         err_bind (dict_get data_ops (name arg)) (\<lambda>slot.
         err_bind (result_type slot) (\<lambda>t.
         call_args rest data_ops (in_ssa, out_types @ [t], out_tracking @ [slot])))
       else call_args rest data_ops (in_ssa, out_types, out_tracking))"

definition generateSchemeSubroutineCallOps ::
  "string \<Rightarrow> CCPPArgumentTable \<Rightarrow> (string, op) dict \<Rightarrow> error + op list" where
  "generateSchemeSubroutineCallOps subroutine_name arg_table data_ops =
     err_bind (call_args (getFunctionArguments arg_table) data_ops ([], [], []))
       (\<lambda>(in_ssa, out_types, out_tracking).
     if length out_types \<noteq> length out_tracking then Inl AssertionError else
     (let call_op = CallOp subroutine_name in_ssa out_types;
          store_ops = map (\<lambda>(idx, out_var). CopyOp (OpResult call_op idx) (result out_var))
                          (enumerate 0 out_tracking);
          err_const_comp = ConstantOp (IntegerAttr 0 (IntegerType 32)) in
      err_bind (dict_get data_ops ''errflg'') (\<lambda>errflg.
      (let load_op = LoadOp (result errflg) [];
           cmp = CmpiOp 0 (result load_op) (result err_const_comp);
           conditional_op = IfOp (result cmp) [] ([call_op] @ store_ops @ [YieldOp []]) None
       in Inr [err_const_comp, cmp, load_op, conditional_op]))))"

text \<open>\<^verbatim>\<open>generateSubroutineCall\<close>: its two loops over the scheme names, then the function.\<close>

fun collect_arg_tables ::
  "(string, CCPPTableProperties) dict \<Rightarrow> string list \<Rightarrow> string
     \<Rightarrow> (string, CCPPArgumentTable) dict \<Rightarrow> error + (string, CCPPArgumentTable) dict" where
  "collect_arg_tables meta_data [] postfix tables = Inr tables"
| "collect_arg_tables meta_data (scheme_name # rest) postfix tables =
     err_bind (getArgumentTable meta_data scheme_name (scheme_name @ postfix)) (\<lambda>t.
     collect_arg_tables meta_data rest postfix (AList.update scheme_name t tables))"

fun call_loop ::
  "(string, op) dict \<Rightarrow> (string, CCPPArgumentTable) dict \<Rightarrow> (string, op) dict \<Rightarrow> string
     \<Rightarrow> string list \<Rightarrow> op list \<times> (string, op) dict \<Rightarrow> error + (op list \<times> (string, op) dict)" where
  "call_loop meta_fn_sigs tables data_ops postfix [] acc = Inr acc"
| "call_loop meta_fn_sigs tables data_ops postfix (scheme_name # rest) (call_ops, fn_sigs) =
     (case map_of meta_fn_sigs (scheme_name @ postfix) of
        None \<Rightarrow> Inl AssertionError
      | Some sig \<Rightarrow>
          err_bind (dict_get tables scheme_name) (\<lambda>arg_table.
          err_bind (generateSchemeSubroutineCallOps (scheme_name @ postfix) arg_table data_ops)
            (\<lambda>ops.
          call_loop meta_fn_sigs tables data_ops postfix rest
            (call_ops @ ops,
             if map_of fn_sigs (scheme_name @ postfix) = None
             then AList.update (scheme_name @ postfix) sig fn_sigs else fn_sigs))))"

definition generateSubroutineCall ::
  "(string, CCPPTableProperties) dict \<Rightarrow> (string, op) dict \<Rightarrow> XMLSuiteBase \<Rightarrow> string
     \<Rightarrow> string option \<Rightarrow> error + (op \<times> op list)" where
  "generateSubroutineCall meta_data meta_fn_sigs suite_description tgt_subroutine_postfix
       generated_subroutine_posfix =
     (let gen_postfix = (case generated_subroutine_posfix of
                           None \<Rightarrow> tgt_subroutine_postfix | Some g \<Rightarrow> g) in
      err_bind (getSchemeNames suite_description) (\<lambda>scheme_names.
      err_bind (collect_arg_tables meta_data scheme_names tgt_subroutine_postfix []) (\<lambda>tables.
      err_bind (generateVariableCreation scheme_names tables) (\<lambda>create_data_ops.
      err_bind (generateVariableInitialisations create_data_ops) (\<lambda>initialisation_ops.
      err_bind (call_loop meta_fn_sigs tables create_data_ops tgt_subroutine_postfix
                  scheme_names ([], [])) (\<lambda>(call_ops, fn_sigs).
      (let body_ops = dict_values create_data_ops @ initialisation_ops @ call_ops
                        @ [ReturnOp (map result (dict_values create_data_ops))] in
       err_bind (err_map result_type (dict_values create_data_ops)) (\<lambda>return_types.
       err_bind (dict_get (attributes suite_description) ''name'') (\<lambda>suite_name.
       Inr (FuncOp (suite_name @ ''_suite'' @ gen_postfix) [] return_types (Some body_ops),
            dict_values fn_sigs))))))))))"

text \<open>\<^verbatim>\<open>clone_func_defs\<close> and \<^verbatim>\<open>match_and_rewrite\<close>: the module that holds both phases.\<close>

fun clone_func_def :: "op \<Rightarrow> error + op" where
  "clone_func_def (FuncOp sym_name inputs outputs body) = Inr (FuncOp sym_name inputs outputs None)"
| "clone_func_def _ = Inl AttributeError"

definition clone_func_defs :: "op list list \<Rightarrow> error + op list" where
  "clone_func_defs func_defs = err_map clone_func_def (concat func_defs)"

definition match_and_rewrite ::
  "(string, XMLSuiteBase) dict \<Rightarrow> (string, CCPPTableProperties) dict \<Rightarrow> (string, op) dict
     \<Rightarrow> string \<Rightarrow> error + op" where
  "match_and_rewrite suite_descriptions meta_data meta_fn_sigs suite_name =
     err_bind (dict_get suite_descriptions suite_name) (\<lambda>suite_description.
     err_bind (generateSubroutineCall meta_data meta_fn_sigs suite_description ''_init''
                 (Some ''_initialize'')) (\<lambda>(init_fn, init_fn_sigs).
     err_bind (generateSubroutineCall meta_data meta_fn_sigs suite_description ''_finalize'' None)
       (\<lambda>(finalise_fn, finalise_fn_sigs).
     err_bind (clone_func_defs [init_fn_sigs, finalise_fn_sigs]) (\<lambda>fn_sigs.
     Inr (ModuleOp (Some (suite_name @ ''_cap'')) ([init_fn, finalise_fn] @ fn_sigs))))))"

section \<open>The backend text emitter (\<^verbatim>\<open>backend/print_ftn.py\<close>)\<close>

subsection \<open>Text\<close>

text \<open>\<^verbatim>\<open>str(i)\<close> for an integer, and \<^verbatim>\<open>sep.join(xs)\<close>.\<close>

definition digit_char :: "nat \<Rightarrow> char" where
  "digit_char d = char_of (48 + d)"

fun digits_of :: "nat \<Rightarrow> string" where
  "digits_of n = (if n < 10 then [digit_char n] else digits_of (n div 10) @ [digit_char (n mod 10)])"

declare digits_of.simps [simp del]

definition str_of_int :: "int \<Rightarrow> string" where
  "str_of_int i = (if i < 0 then CHR ''-'' # digits_of (nat (- i)) else digits_of (nat i))"

fun join :: "string \<Rightarrow> string list \<Rightarrow> string" where
  "join sep [] = []"
| "join sep [x] = x"
| "join sep (x # y # ys) = x @ sep @ join sep (y # ys)"

definition newline :: char where
  "newline = CHR 0x0A"

subsection \<open>The contexts and what they share\<close>

text \<open>
  An \<open>ftnPrintContext\<close> is a mutable object that refers to three dictionaries. The store
  keeps the context objects and the dictionaries by address, so that a dictionary two
  contexts refer to is one object and a copied dictionary is another; \<open>out_stream\<close> (\<^verbatim>\<open>output\<close>) is the one
  stream all contexts write to.
\<close>

record ftnPrintContext =
  prefix :: string
  variables :: nat
  counter :: int
  binops :: nat
  cmp_ops :: nat

record store =
  ctxs :: "nat \<Rightarrow> ftnPrintContext"
  var_dicts :: "nat \<Rightarrow> (ssa, string) dict"
  binop_dicts :: "nat \<Rightarrow> (string, string) dict"
  cmp_dicts :: "nat \<Rightarrow> (string, (string, string option) dict) dict"
  next_addr :: nat
  out_stream :: string

definition INDENT :: string where
  "INDENT = ''  ''"

text \<open>\<^verbatim>\<open>Ctx(output)\<close>: a new context with three new empty dictionaries.\<close>

definition new_context :: "store \<Rightarrow> nat \<times> store" where
  "new_context h =
     (let a = next_addr h in
      (a, h\<lparr>ctxs := (ctxs h)(a := \<lparr>prefix = [], variables = a + 1, counter = 0,
                                     binops = a + 2, cmp_ops = a + 3\<rparr>),
             var_dicts := (var_dicts h)(a + 1 := []),
             binop_dicts := (binop_dicts h)(a + 2 := []),
             cmp_dicts := (cmp_dicts h)(a + 3 := []),
             next_addr := a + 4\<rparr>))"

fun dict_update_all :: "('k, 'v) dict \<Rightarrow> ('k, 'v) dict \<Rightarrow> ('k, 'v) dict" where
  "dict_update_all [] d = d"
| "dict_update_all ((k, v) # kvs) d = dict_update_all kvs (AList.update k v d)"

definition register_binops :: "nat \<Rightarrow> store \<Rightarrow> store" where
  "register_binops self h =
     (let c = ctxs h self in
      h\<lparr>binop_dicts := (binop_dicts h)(binops c := dict_update_all
           [(''arith.addf'', ''+''), (''arith.addi'', ''+''), (''arith.mulf'', ''*''),
            (''arith.muli'', ''*''), (''arith.divf'', ''/''), (''arith.divsi'', ''/''),
            (''arith.divui'', ''/''), (''arith.subf'', ''-''), (''arith.subi'', ''-''),
            (''arith.remsi'', ''%''), (''arith.remui'', ''%''), (''arith.shli'', ''<<''),
            (''arith.andi'', ''&''), (''arith.ori'', ''|'')]
           (binop_dicts h (binops c))),
        cmp_dicts := (cmp_dicts h)(cmp_ops c := dict_update_all
           [(''arith.cmpi'',
               [(''eq'', Some ''.eq.''), (''ne'', Some ''.ne.''), (''slt'', Some ''.lt.''),
                (''sle'', Some ''.le.''), (''sgt'', Some ''.gt.''), (''sge'', Some ''.ge.''),
                (''ult'', Some ''.lt.''), (''ule'', Some ''.le.''), (''ugt'', Some ''.gt.''),
                (''uge'', Some ''.ge.'')]),
            (''arith.cmpf'',
               [(''false'', None), (''oeq'', Some ''==''), (''ogt'', Some ''>''),
                (''oge'', Some ''>=''), (''olt'', Some ''<''), (''ole'', Some ''<=''),
                (''one'', Some ''!=''), (''ord'', None), (''ueq'', Some ''==''),
                (''ugt'', Some ''>''), (''uge'', Some ''>=''), (''ult'', Some ''<''),
                (''ule'', Some ''<=''), (''une'', Some ''!=''), (''uno'', None),
                (''true'', None)])]
           (cmp_dicts h (cmp_ops c)))\<rparr>)"

text \<open>
  \<^verbatim>\<open>print\<close>: every line of the text goes to the output, after the prefix of the context
  when \<open>use_prefix\<close> holds, and followed by \<open>ending\<close>.
\<close>

definition print :: "nat \<Rightarrow> store \<Rightarrow> string \<Rightarrow> string \<Rightarrow> bool \<Rightarrow> store" where
  "print self h text ending use_prefix =
     h\<lparr>out_stream := out_stream h
          @ concat (map (\<lambda>l. (if use_prefix then prefix (ctxs h self) else []) @ l @ ending)
                        (split_on newline text))\<rparr>"

text \<open>
  \<^verbatim>\<open>descend\<close>: the sub-context gets a copy of the variables dictionary, the same two
  operator dictionaries, the value of the counter and a longer prefix.
\<close>

definition descend :: "nat \<Rightarrow> store \<Rightarrow> nat \<times> store" where
  "descend self h =
     (let c = ctxs h self; a = next_addr h in
      (a, h\<lparr>ctxs := (ctxs h)(a := \<lparr>prefix = prefix c @ INDENT, variables = a + 1,
                                     counter = counter c, binops = binops c,
                                     cmp_ops = cmp_ops c\<rparr>),
             var_dicts := (var_dicts h)(a + 1 := var_dicts h (variables c)),
             next_addr := a + 2\<rparr>))"

subsection \<open>Names\<close>

text \<open>
  What the tree does not carry is read from the host library: of an SSA value the
  operations that use it, in the order \<^verbatim>\<open>val.uses\<close> gives them, and its name hint; and
  the constant \<^verbatim>\<open>DYNAMIC_INDEX\<close> that marks a dynamic extent of a shape, which the emitter
  imports and whose value is not in the sources.
\<close>

record ir_info =
  uses :: "ssa \<Rightarrow> op list"
  name_hint :: "ssa \<Rightarrow> string option"
  DYNAMIC_INDEX :: int

text \<open>
  The loop of \<^verbatim>\<open>_get_variable_name_for\<close> from the first synthesized name on: the name
  is the prefix followed by the counter, the counter is incremented, and the step repeats
  while the name is taken. Rendering an integer is injective, so only finitely many
  counters give a taken name and the loop ends.
\<close>

lemma digit_char_props: "d < 10 \<Longrightarrow> is_digit (digit_char d) \<and> (of_char (digit_char d) :: nat) = 48 + d"
  by (simp add: is_digit_def digit_char_def)

lemma digit_char_eval:
  "digit_char 0 = CHR ''0''" "digit_char (Suc 0) = CHR ''1''" "digit_char 2 = CHR ''2''"
  "digit_char 3 = CHR ''3''" "digit_char 4 = CHR ''4''" "digit_char 5 = CHR ''5''"
  "digit_char 6 = CHR ''6''" "digit_char 7 = CHR ''7''" "digit_char 8 = CHR ''8''"
  "digit_char 9 = CHR ''9''"
  by (code_simp+)

lemma digit_char_not_minus: "d < 10 \<Longrightarrow> digit_char d \<noteq> CHR ''-''"
  using digit_char_props[of d] by (auto simp: is_digit_def)

lemma digits_value_snoc:
  "digits_value a (xs @ [c]) =
     (if is_digit c then 10 * digits_value a xs + (int (of_char c) - 48) else digits_value a xs)"
  by (induction xs arbitrary: a) auto

lemma digits_value_digits_of: "digits_value 0 (digits_of n) = int n"
proof (induction n rule: digits_of.induct)
  case (1 n)
  show ?case
  proof (cases "n < 10")
    case True
    then have "digits_of n = [digit_char n]" by (subst digits_of.simps) simp
    then show ?thesis using True digit_char_props[of n] by simp
  next
    case False
    have m: "n mod 10 < 10" by simp
    have "digits_value 0 (digits_of n)
            = digits_value 0 (digits_of (n div 10) @ [digit_char (n mod 10)])"
      using False by (subst digits_of.simps) simp
    also have "\<dots> = 10 * int (n div 10) + int (n mod 10)"
      using digit_char_props[OF m] "1.IH"[OF False] by (simp add: digits_value_snoc)
    also have "\<dots> = int (10 * (n div 10) + n mod 10)"
      by (simp only: of_nat_add of_nat_mult of_nat_numeral)
    also have "\<dots> = int n" by simp
    finally show ?thesis .
  qed
qed

lemma digits_of_hd: "digits_of n \<noteq> [] \<and> hd (digits_of n) \<noteq> CHR ''-''"
proof (induction n rule: digits_of.induct)
  case (1 n)
  show ?case
  proof (cases "n < 10")
    case True
    then have "digits_of n = [digit_char n]" by (subst digits_of.simps) simp
    then show ?thesis using True digit_char_not_minus[of n] by simp
  next
    case False
    then have "digits_of n = digits_of (n div 10) @ [digit_char (n mod 10)]"
      by (subst digits_of.simps) simp
    then show ?thesis using "1.IH"[OF False] by simp
  qed
qed

lemma digits_of_inj: "digits_of m = digits_of n \<Longrightarrow> m = n"
proof -
  assume eq: "digits_of m = digits_of n"
  have "int m = digits_value 0 (digits_of m)" by (simp only: digits_value_digits_of)
  also have "\<dots> = digits_value 0 (digits_of n)" by (simp only: eq)
  also have "\<dots> = int n" by (rule digits_value_digits_of)
  finally show "m = n" by simp
qed

lemma str_of_int_inj: "str_of_int i = str_of_int j \<Longrightarrow> i = j"
proof -
  assume eq: "str_of_int i = str_of_int j"
  have mixed: "x < 0 \<Longrightarrow> \<not> y < 0 \<Longrightarrow> str_of_int x \<noteq> str_of_int y" for x y
  proof
    assume "x < 0" "\<not> y < 0" "str_of_int x = str_of_int y"
    then have "digits_of (nat y) = CHR ''-'' # digits_of (nat (- x))"
      by (simp add: str_of_int_def)
    then have "hd (digits_of (nat y)) = CHR ''-''" by simp
    then show False using digits_of_hd by blast
  qed
  show "i = j"
  proof (cases "i < 0")
    case True
    then have j: "j < 0" using mixed[of i j] eq by blast
    then have "digits_of (nat (- i)) = digits_of (nat (- j))"
      using True eq by (simp add: str_of_int_def)
    then have "nat (- i) = nat (- j)" by (rule digits_of_inj)
    then show ?thesis using True j by simp
  next
    case False
    then have j: "\<not> j < 0" using mixed[of j i] eq by auto
    then have "digits_of (nat i) = digits_of (nat j)"
      using False eq by (simp add: str_of_int_def)
    then have "nat i = nat j" by (rule digits_of_inj)
    then show ?thesis using False j by simp
  qed
qed

lemma str_of_int_nonempty: "str_of_int i \<noteq> []"
  using digits_of_hd by (simp add: str_of_int_def)

lemma finite_taken_counters: "finite {k. pfx @ str_of_int k \<in> set taken}"
proof -
  have "inj (\<lambda>k. pfx @ str_of_int k)"
    by (rule injI) (simp add: str_of_int_inj)
  then have "finite ((\<lambda>k. pfx @ str_of_int k) -` set taken)"
    by (intro finite_vimageI) simp_all
  then show ?thesis by (simp add: vimage_def)
qed

function fresh_name :: "string \<Rightarrow> string list \<Rightarrow> int \<Rightarrow> string \<times> int" where
  "fresh_name pfx taken c =
     (if pfx @ str_of_int c \<in> set taken then fresh_name pfx taken (c + 1)
      else (pfx @ str_of_int c, c + 1))"
  by pat_completeness auto
termination
proof (relation "measure (\<lambda>(pfx, taken, c). card {k. c \<le> k \<and> pfx @ str_of_int k \<in> set taken})")
  show "wf (measure (\<lambda>(pfx, taken, c). card {k. c \<le> k \<and> pfx @ str_of_int k \<in> set taken}))"
    by simp
next
  fix pfx :: string and taken :: "string list" and c :: int
  assume hit: "pfx @ str_of_int c \<in> set taken"
  have fin: "finite {k. c \<le> k \<and> pfx @ str_of_int k \<in> set taken}"
    using finite_taken_counters[of pfx taken] by (rule rev_finite_subset) auto
  have "c \<in> {k. c \<le> k \<and> pfx @ str_of_int k \<in> set taken}" using hit by simp
  moreover have "c \<notin> {k. c + 1 \<le> k \<and> pfx @ str_of_int k \<in> set taken}" by simp
  moreover have "{k. c + 1 \<le> k \<and> pfx @ str_of_int k \<in> set taken}
          \<subseteq> {k. c \<le> k \<and> pfx @ str_of_int k \<in> set taken}" by auto
  ultimately have "{k. c + 1 \<le> k \<and> pfx @ str_of_int k \<in> set taken}
          \<subset> {k. c \<le> k \<and> pfx @ str_of_int k \<in> set taken}" by blast
  then have "card {k. c + 1 \<le> k \<and> pfx @ str_of_int k \<in> set taken}
          < card {k. c \<le> k \<and> pfx @ str_of_int k \<in> set taken}"
    using fin by (rule psubset_card_mono[rotated])
  then show "((pfx, taken, c + 1), (pfx, taken, c))
      \<in> measure (\<lambda>(pfx, taken, c). card {k. c \<le> k \<and> pfx @ str_of_int k \<in> set taken})"
    by simp
qed

declare fresh_name.simps [simp del]

definition get_variable_name_for ::
  "ir_info \<Rightarrow> nat \<Rightarrow> store \<Rightarrow> ssa \<Rightarrow> string option \<Rightarrow> string \<times> store" where
  "get_variable_name_for ir self h val hint =
     (let c = ctxs h self; vars = var_dicts h (variables c) in
      case map_of vars val of
        Some n \<Rightarrow> (n, h)
      | None \<Rightarrow>
          (let taken_names = dict_values vars;
               hint' = (case hint of None \<Rightarrow> name_hint ir val | Some x \<Rightarrow> Some x);
               synthesized = fresh_name (case name_hint ir val of None \<Rightarrow> ''v'' | Some p \<Rightarrow> p)
                               taken_names (counter c);
               chosen = (case hint' of
                           None \<Rightarrow> synthesized
                         | Some x \<Rightarrow> if x \<notin> set taken_names then (x, counter c)
                                     else synthesized)
           in (fst chosen,
               h\<lparr>ctxs := (ctxs h)(self := c\<lparr>counter := snd chosen\<rparr>),
                 var_dicts := (var_dicts h)(variables c := AList.update val (fst chosen) vars)\<rparr>)))"

fun names_for ::
  "ir_info \<Rightarrow> nat \<Rightarrow> store \<Rightarrow> ssa list \<Rightarrow> string list \<times> store" where
  "names_for ir self h [] = ([], h)"
| "names_for ir self h (v # vs) =
     (case get_variable_name_for ir self h v None of (n, h') \<Rightarrow>
        (case names_for ir self h' vs of (ns, h'') \<Rightarrow> (n # ns, h'')))"

subsection \<open>Types and attribute values\<close>

definition str_of_opt :: "string option \<Rightarrow> string" where
  "str_of_opt s = (case s of None \<Rightarrow> ''None'' | Some t \<Rightarrow> t)"

fun mlir_type_to_ftn_type :: "ir_info \<Rightarrow> ty \<Rightarrow> error + string option" where
  "mlir_type_to_ftn_type ir Float32Type = Inr (Some ''real(kind=4)'')"
| "mlir_type_to_ftn_type ir Float64Type = Inr (Some ''real(kind=8)'')"
| "mlir_type_to_ftn_type ir (IntegerType w) =
     (if w = 1 then Inr (Some ''logical'')
      else if w = 8 then Inr (Some ''character'')
      else if w = 32 then Inr (Some ''integer'') else Inl AssertionError)"
| "mlir_type_to_ftn_type ir (MemRefType elem_t shape) =
     (if DYNAMIC_INDEX ir \<in> set shape then Inl ValueError
      else err_bind (mlir_type_to_ftn_type ir elem_t) (\<lambda>t.
        if t = Some ''character''
        then Inr (Some (''character(len='' @ join '', '' (map str_of_int shape) @ '')''))
        else Inr (Some (str_of_opt t @ ''('' @ join '', '' (map str_of_int shape) @ '')''))))"
| "mlir_type_to_ftn_type ir (OtherType n) = Inr None"

definition quote :: char where
  "quote = CHR 0x22"

fun attribute_value_to_str :: "ir_info \<Rightarrow> attr \<Rightarrow> error + string"
  and attribute_values_to_strs :: "ir_info \<Rightarrow> attr list \<Rightarrow> error + string list" where
  "attribute_value_to_str ir (IntAttr i) = Inr (str_of_int i)"
| "attribute_value_to_str ir (IntegerAttr v t) =
     (if t = IntegerType 1 then Inr (if v \<noteq> 0 then ''true'' else ''false'')
      else Inr (str_of_int v))"
| "attribute_value_to_str ir (FloatAttr is_zero text) = Inr (if is_zero then ''0.0'' else text)"
| "attribute_value_to_str ir (StringAttr s) = Inr ([quote] @ s @ [quote])"
| "attribute_value_to_str ir (DenseIntOrFPElementsAttr t elems) =
     err_bind (mlir_type_to_ftn_type ir t) (\<lambda>ts.
     err_bind (attribute_values_to_strs ir elems) (\<lambda>es.
     Inr (str_of_opt ts @ '' { '' @ join '', '' es @ '' }'')))"
| "attribute_value_to_str ir (OtherAttr text) = Inr (''<!unknown value '' @ text @ ''>'')"
| "attribute_values_to_strs ir [] = Inr []"
| "attribute_values_to_strs ir (a # as) =
     err_bind (attribute_value_to_str ir a) (\<lambda>s.
     err_bind (attribute_values_to_strs ir as) (\<lambda>ss. Inr (s # ss)))"

subsection \<open>Expressions\<close>

text \<open>The table of the host library from the predicate number to the predicate name.\<close>

definition CMPI_COMPARISON_OPERATIONS :: "string list" where
  "CMPI_COMPARISON_OPERATIONS =
     [''eq'', ''ne'', ''slt'', ''sle'', ''sgt'', ''sge'', ''ult'', ''ule'', ''ugt'', ''uge'']"

lemma err_bind_cong [fundef_cong]:
  "m = m' \<Longrightarrow> (\<And>x. m' = Inr x \<Longrightarrow> f x = f' x) \<Longrightarrow> err_bind m f = err_bind m' f'"
  by (cases m') (simp_all add: err_bind_def)

definition print_or_promote_to_inline_expr :: "nat \<Rightarrow> store \<Rightarrow> string \<Rightarrow> store" where
  "print_or_promote_to_inline_expr self h value_expr = print self h value_expr [] False"

text \<open>
  \<^verbatim>\<open>print_expr\<close> on the owner of an operand. The owner of a block argument is a block,
  which no case of the \<^verbatim>\<open>match\<close> accepts.
\<close>

fun print_expr :: "ir_info \<Rightarrow> nat \<Rightarrow> store \<Rightarrow> op \<Rightarrow> error + store" where
  "print_expr ir self h (ConstantOp v) =
     err_bind (attribute_value_to_str ir v) (\<lambda>s.
     Inr (print_or_promote_to_inline_expr self h s))"
| "print_expr ir self h (LoadOp arr idxs) =
     (case get_variable_name_for ir self h arr None of
        (n, h') \<Rightarrow> Inr (print self h' n [] False))"
| "print_expr ir self h (CmpiOp v l r) =
     err_bind (py_index CMPI_COMPARISON_OPERATIONS v) (\<lambda>str_pred.
     err_bind (case l of OpResult lo i \<Rightarrow> print_expr ir self h lo
                       | BlockArgument i \<Rightarrow> Inl AssertionError) (\<lambda>h1.
     err_bind (dict_get (cmp_dicts h1 (cmp_ops (ctxs h1 self))) ''arith.cmpi'') (\<lambda>table.
     err_bind (dict_get table str_pred) (\<lambda>sym.
     (case r of OpResult ro i \<Rightarrow>
                  print_expr ir self (print self h1 ('' '' @ str_of_opt sym @ '' '') [] False) ro
              | BlockArgument i \<Rightarrow> Inl AssertionError)))))"
| "print_expr ir self h _ = Inl AssertionError"

definition print_expr_owner :: "ir_info \<Rightarrow> nat \<Rightarrow> store \<Rightarrow> ssa \<Rightarrow> error + store" where
  "print_expr_owner ir self h v =
     (case v of OpResult p i \<Rightarrow> print_expr ir self h p | BlockArgument i \<Rightarrow> Inl AssertionError)"

subsection \<open>Statements\<close>

fun find_ret_ssa_idx :: "ssa list \<Rightarrow> ssa \<Rightarrow> nat \<Rightarrow> nat option" where
  "find_ret_ssa_idx [] v idx = None"
| "find_ret_ssa_idx (arg # rest) v idx =
     (if arg = v then Some idx else find_ret_ssa_idx rest v (Suc idx))"

fun get_call_result_var_ssa ::
  "ir_info \<Rightarrow> nat \<Rightarrow> store \<Rightarrow> op list \<Rightarrow> string option \<times> store" where
  "get_call_result_var_ssa ir self h [] = (None, h)"
| "get_call_result_var_ssa ir self h (CopyOp src dst # rest) =
     (case get_variable_name_for ir self h dst None of (n, h') \<Rightarrow> (Some n, h'))"
| "get_call_result_var_ssa ir self h (u # rest) = get_call_result_var_ssa ir self h rest"

text \<open>The two loops of \<^verbatim>\<open>_print_call\<close>, over the arguments and over the results.\<close>

fun print_call_args :: "ir_info \<Rightarrow> nat \<Rightarrow> store \<Rightarrow> nat \<Rightarrow> ssa list \<Rightarrow> error + store" where
  "print_call_args ir self h idx [] = Inr h"
| "print_call_args ir self h idx (arg # rest) =
     err_bind (print_expr_owner ir self
                 (if idx > 0 then print self h '', '' [] False else h) arg) (\<lambda>h'.
     print_call_args ir self h' (Suc idx) rest)"

fun print_call_results :: "ir_info \<Rightarrow> nat \<Rightarrow> store \<Rightarrow> nat \<Rightarrow> ssa list \<Rightarrow> error + store" where
  "print_call_results ir self h idx [] = Inr h"
| "print_call_results ir self h idx (res # rest) =
     (case get_call_result_var_ssa ir self
             (if idx > 0 then print self h '', '' [] False else h) (uses ir res) of
        (None, h') \<Rightarrow> Inl AttributeError
      | (Some n, h') \<Rightarrow> print_call_results ir self (print self h' n [] False) (Suc idx) rest)"

definition print_call ::
  "ir_info \<Rightarrow> nat \<Rightarrow> store \<Rightarrow> string \<Rightarrow> ssa list \<Rightarrow> ssa list \<Rightarrow> error + store" where
  "print_call ir self h tgt args results =
     err_bind (print_call_args ir self (print self h (''call '' @ tgt @ ''('') [] True) 0 args)
       (\<lambda>h1.
     err_bind (print_call_results ir self h1 (length args) results) (\<lambda>h2.
     Inr (print self h2 '')'' [newline] False)))"

text \<open>The declaration lines of \<^verbatim>\<open>_print_fn\<close>, printed by the inner context.\<close>

fun print_intents :: "ir_info \<Rightarrow> nat \<Rightarrow> store \<Rightarrow> string \<Rightarrow> nat \<Rightarrow> ty list \<Rightarrow> error + store" where
  "print_intents ir inner h intent idx [] = Inr h"
| "print_intents ir inner h intent idx (t # ts) =
     err_bind (mlir_type_to_ftn_type ir t) (\<lambda>s.
     print_intents ir inner
       (print inner h (str_of_opt s @ '', intent('' @ intent @ '') :: arg_''
                        @ str_of_int (int idx)) [newline] True)
       intent (Suc idx) ts)"

text \<open>
  \<^verbatim>\<open>print_op\<close> and \<^verbatim>\<open>print_block\<close>. The cases of \<^verbatim>\<open>_print_fn\<close> and \<^verbatim>\<open>_print_if\<close> are
  written out where \<^verbatim>\<open>print_op\<close> calls them: each prints its opening line, makes the
  sub-context with \<open>descend\<close>, lets it print the block, and prints its closing line from the
  outer context. An operation that no case matches prints nothing.
\<close>

function print_op :: "ir_info \<Rightarrow> nat \<Rightarrow> store \<Rightarrow> op \<Rightarrow> error + store"
  and print_block :: "ir_info \<Rightarrow> nat \<Rightarrow> store \<Rightarrow> op list \<Rightarrow> error + store" where
  "print_op ir self h (AllocaOp l t sh) =
     (case uses ir (OpResult (AllocaOp l t sh) 0) of
        [] \<Rightarrow> Inl IndexError
      | possible_ret # others \<Rightarrow>
          (case possible_ret of
             ReturnOp arguments \<Rightarrow>
               (case find_ret_ssa_idx arguments (OpResult (AllocaOp l t sh) 0) 0 of
                  None \<Rightarrow> Inl AssertionError
                | Some arg_idx \<Rightarrow>
                    Inr (h\<lparr>var_dicts := (var_dicts h)(variables (ctxs h self) :=
                             AList.update (OpResult (AllocaOp l t sh) 0)
                               (''arg_'' @ str_of_int (int arg_idx))
                               (var_dicts h (variables (ctxs h self))))\<rparr>))
           | _ \<Rightarrow> Inr h))"
| "print_op ir self h (FuncOp sym_name inputs outputs body) =
     (case body of
        None \<Rightarrow> Inr h
      | Some bdy \<Rightarrow>
          (let args = join '', '' (map (\<lambda>idx. ''arg_'' @ str_of_int (int idx))
                                      [0 ..< length (inputs @ outputs)]);
               h1 = print self h ([newline] @ ''subroutine '' @ sym_name @ ''('' @ args @ '')''
                                  @ '' '') [newline] True
           in case descend self h1 of (inner, h2) \<Rightarrow>
                err_bind (print_intents ir inner h2 ''in'' 0 inputs) (\<lambda>h3.
                err_bind (print_intents ir inner h3 ''out'' (length inputs) outputs) (\<lambda>h4.
                err_bind (print_block ir inner (print inner h4 [] [newline] True) bdy) (\<lambda>h5.
                Inr (print self h5 (''end subroutine '' @ sym_name @ '' '') [newline] True))))))"
| "print_op ir self h (CallOp callee arguments res) =
     print_call ir self h callee arguments
       (map (OpResult (CallOp callee arguments res)) [0 ..< length res])"
| "print_op ir self h (IfOp conditional ts true_bdy false_bdy) =
     err_bind (print_expr_owner ir self (print self h ''if ('' [] True) conditional) (\<lambda>h1.
     (case descend self (print self h1 '') then'' [newline] False) of (inner, h2) \<Rightarrow>
        err_bind (print_block ir inner h2 true_bdy) (\<lambda>h3.
        err_bind (case false_bdy of
                    None \<Rightarrow> Inr h3
                  | Some b \<Rightarrow>
                      (case descend self (print self h3 ''else'' [newline] True) of
                         (inner', h4) \<Rightarrow> print_block ir inner' h4 b)) (\<lambda>h5.
        Inr (print self h5 ''end if'' [newline] True)))))"
| "print_op ir self h (StoreOp val arr idxs) =
     (case get_variable_name_for ir self h arr None of (arr_name, h1) \<Rightarrow>
        (case names_for ir self h1 idxs of (idx_names, h2) \<Rightarrow>
           (let idx_args = join '', '' idx_names;
                h3 = (if length idx_args > 0
                      then print self h2 (arr_name @ ''['' @ idx_args @ ''] = '') [] True
                      else print self h2 (arr_name @ '' = '') [] True)
            in err_bind (print_expr_owner ir self h3 val) (\<lambda>h4.
               Inr (print self h4 [] [newline] True)))))"
| "print_op ir self h (ConstantOp v) = Inr h"
| "print_op ir self h (LoadOp arr idxs) = Inr h"
| "print_op ir self h (CopyOp src dst) = Inr h"
| "print_op ir self h (CmpiOp v l r) = Inr h"
| "print_op ir self h (YieldOp vs) = Inr h"
| "print_op ir self h (ReturnOp vs) = Inr h"
| "print_op ir self h (ModuleOp sym_name ops) = Inr h"
| "print_op ir self h (OtherOp n operands) = Inr h"
| "print_block ir self h [] = Inr h"
| "print_block ir self h (p # ps) = err_bind (print_op ir self h p) (\<lambda>h'. print_block ir self h' ps)"
  by pat_completeness auto
termination
  by (relation "measure (\<lambda>x. case x of Inl (ir, self, h, p) \<Rightarrow> size p
                               | Inr (ir, self, h, ps) \<Rightarrow> size_list size ps)") auto

text \<open>\<^verbatim>\<open>print_to_ftn\<close>: a new context, then every module of the program in turn.\<close>

fun print_modules :: "ir_info \<Rightarrow> nat \<Rightarrow> store \<Rightarrow> bool \<Rightarrow> op list \<Rightarrow> error + store" where
  "print_modules ir ctx h divider [] = Inr h"
| "print_modules ir ctx h divider (ModuleOp sym_name ops # rest) =
     (case sym_name of
        None \<Rightarrow> Inl AttributeError
      | Some n \<Rightarrow>
          err_bind (print_block ir ctx
                      (print ctx (if divider then print ctx h ''// -----'' [newline] True else h)
                         (''// FILE: '' @ n) [newline] True) ops) (\<lambda>h'.
          print_modules ir ctx h' True rest))"
| "print_modules ir ctx h divider (p # rest) = print_modules ir ctx h divider rest"

definition print_to_ftn :: "ir_info \<Rightarrow> store \<Rightarrow> op \<Rightarrow> error + store" where
  "print_to_ftn ir h prog =
     (case prog of
        ModuleOp sym_name ops \<Rightarrow>
          (case new_context h of (ctx, h1) \<Rightarrow> print_modules ir ctx (register_binops ctx h1) False ops)
      | _ \<Rightarrow> Inl AttributeError)"

definition empty_store :: store where
  "empty_store = \<lparr>ctxs = (\<lambda>a. \<lparr>prefix = [], variables = 0, counter = 0, binops = 0, cmp_ops = 0\<rparr>),
                   var_dicts = (\<lambda>a. []), binop_dicts = (\<lambda>a. []), cmp_dicts = (\<lambda>a. []),
                   next_addr = 0, out_stream = []\<rparr>"

section \<open>The metadata parser (\<^verbatim>\<open>frontend/ccpp_xml.py\<close>)\<close>

text \<open>
  The item classes of the frontend are those of the descriptors; its table properties hold
  attributes only. \<^verbatim>\<open>setAttr\<close> checks the key against the allowed keys of the class, and the
  table properties convert the value of \<open>type\<close> to the enumeration \<^verbatim>\<open>CCPPType\<close> first.
\<close>

definition setAttr ::
  "'a CCPPItem_scheme \<Rightarrow> string \<Rightarrow> string \<Rightarrow> string list option \<Rightarrow> error + 'a CCPPItem_scheme" where
  "setAttr item key v allowed_keys =
     (case allowed_keys of
        None \<Rightarrow> Inr (item\<lparr>attrs := AList.update key v (attrs item)\<rparr>)
      | Some ks \<Rightarrow> if key \<in> set ks then Inr (item\<lparr>attrs := AList.update key v (attrs item)\<rparr>)
                   else Inl AssertionError)"

definition CCPPType :: "string \<Rightarrow> error + string" where
  "CCPPType v = (if v \<in> {''scheme'', ''module'', ''ddt''} then Inr v else Inl ValueError)"

definition table_properties_setAttr ::
  "'a CCPPItem_scheme \<Rightarrow> string \<Rightarrow> string \<Rightarrow> error + 'a CCPPItem_scheme" where
  "table_properties_setAttr item key v =
     err_bind (if key = ''type'' then CCPPType v else Inr v) (\<lambda>v'.
     setAttr item key v' (Some [''name'', ''type'', ''dependencies'', ''relative_path'']))"

definition arg_table_setAttr :: "CCPPArgumentTable \<Rightarrow> string \<Rightarrow> string \<Rightarrow> error + CCPPArgumentTable" where
  "arg_table_setAttr t key v = setAttr t key v (Some [''name'', ''type''])"

definition setFunctionArgument :: "CCPPArgumentTable \<Rightarrow> CCPPArgument \<Rightarrow> CCPPArgumentTable" where
  "setFunctionArgument t fn_arg =
     t\<lparr>function_arguments := AList.update (name fn_arg) fn_arg (function_arguments t)\<rparr>"

text \<open>The local variables of \<^verbatim>\<open>parse_metadata_file\<close>.\<close>

datatype MetaParseState = PROPERTIES | ARG_TABLE | ARG | NONE

record parser =
  current_table_properties :: "CCPPItem option"
  current_arg_table :: "CCPPArgumentTable option"
  parse_state :: MetaParseState
  table_arg_tables :: "CCPPArgumentTable list"
  current_arg :: "CCPPArgument option"

definition initial_parser :: parser where
  "initial_parser = \<lparr>current_table_properties = None, current_arg_table = None,
                       parse_state = NONE, table_arg_tables = [], current_arg = None\<rparr>"

text \<open>
  The argument being read goes into the table being read, and the table being read goes to
  the list: what the parser does at a table header and after the last line.
\<close>

definition store_current_arg :: "parser \<Rightarrow> error + parser" where
  "store_current_arg st =
     (case current_arg st of
        None \<Rightarrow> Inr st
      | Some a \<Rightarrow>
          (case current_arg_table st of
             None \<Rightarrow> Inl AttributeError
           | Some t \<Rightarrow> Inr (st\<lparr>current_arg_table := Some (setFunctionArgument t a)\<rparr>)))"

definition append_current_table :: "parser \<Rightarrow> parser" where
  "append_current_table st =
     (case current_arg_table st of
        None \<Rightarrow> st
      | Some t \<Rightarrow> st\<lparr>table_arg_tables := table_arg_tables st @ [t]\<rparr>)"

definition bracket_token :: "string \<Rightarrow> string" where
  "bracket_token sline = filter (\<lambda>c. c \<noteq> CHR ''['' \<and> c \<noteq> CHR '']'') sline"

definition is_bracket_line :: "string \<Rightarrow> bool" where
  "is_bracket_line sline = (CHR ''['' \<in> set sline \<and> CHR '']'' \<in> set sline)"

definition parse_bracket_line :: "parser \<Rightarrow> string \<Rightarrow> error + parser" where
  "parse_bracket_line st token =
     err_bind (if token = ''ccpp-table-properties'' \<or> token = ''ccpp-arg-table''
               then err_bind (store_current_arg st) (\<lambda>st1.
                    Inr ((append_current_table (st1\<lparr>current_arg := None\<rparr>))
                           \<lparr>current_arg_table := None\<rparr>))
               else Inr st) (\<lambda>st2.
     if token = ''ccpp-table-properties'' then
       (if current_table_properties st2 \<noteq> None then Inl AssertionError
        else Inr (st2\<lparr>current_table_properties := Some \<lparr>attrs = []\<rparr>,
                      parse_state := PROPERTIES\<rparr>))
     else if token = ''ccpp-arg-table'' then
       Inr (st2\<lparr>parse_state := ARG_TABLE,
                current_arg_table := Some \<lparr>attrs = [], function_arguments = []\<rparr>\<rparr>)
     else if token = [] then Inl IndexError
     else if hd token = CHR '' '' \<and> last token = CHR '' '' then
       err_bind (store_current_arg st2) (\<lambda>st3.
       Inr (st3\<lparr>parse_state := ARG, current_arg := Some \<lparr>attrs = [], name = strip token\<rparr>\<rparr>))
     else Inl AssertionError)"

definition parse_value_line :: "parser \<Rightarrow> string \<Rightarrow> error + parser" where
  "parse_value_line st sline =
     (if parse_state st = NONE then Inl AssertionError
      else if CHR ''='' \<notin> set sline then Inl AssertionError
      else
        err_bind (py_index (split_on CHR ''='' sline) 0) (\<lambda>k.
        err_bind (py_index (split_on CHR ''='' sline) 1) (\<lambda>v.
        (case parse_state st of
           PROPERTIES \<Rightarrow>
             (case current_table_properties st of
                None \<Rightarrow> Inl AssertionError
              | Some p \<Rightarrow> err_bind (table_properties_setAttr p (strip k) (strip v)) (\<lambda>p'.
                          Inr (st\<lparr>current_table_properties := Some p'\<rparr>)))
         | ARG_TABLE \<Rightarrow>
             (case current_arg_table st of
                None \<Rightarrow> Inl AssertionError
              | Some t \<Rightarrow> err_bind (arg_table_setAttr t (strip k) (strip v)) (\<lambda>t'.
                          Inr (st\<lparr>current_arg_table := Some t'\<rparr>)))
         | ARG \<Rightarrow>
             (case current_arg st of
                None \<Rightarrow> Inl AssertionError
              | Some a \<Rightarrow> err_bind (setAttr a (strip k) (strip v) None) (\<lambda>a'.
                          Inr (st\<lparr>current_arg := Some a'\<rparr>)))
         | NONE \<Rightarrow> Inr st))))"

definition parse_line :: "parser \<Rightarrow> string \<Rightarrow> error + parser" where
  "parse_line st line =
     (let sline = strip line in
      if is_bracket_line sline then parse_bracket_line st (bracket_token sline)
      else parse_value_line st sline)"

fun parse_lines :: "parser \<Rightarrow> string list \<Rightarrow> error + parser" where
  "parse_lines st [] = Inr st"
| "parse_lines st (line # rest) = err_bind (parse_line st line) (\<lambda>st'. parse_lines st' rest)"

text \<open>
  \<^verbatim>\<open>parse_metadata_file\<close> on the lines of the file; the result is the pair of the table
  properties and the list of argument tables that the source wraps in a \<^verbatim>\<open>MetaData\<close>.
\<close>

definition parse_metadata_file :: "string list \<Rightarrow> error + (CCPPItem \<times> CCPPArgumentTable list)" where
  "parse_metadata_file file =
     err_bind (parse_lines initial_parser file) (\<lambda>st.
     err_bind (store_current_arg st) (\<lambda>st1.
     (case current_table_properties st1 of
        None \<Rightarrow> Inl AssertionError
      | Some p \<Rightarrow> Inr (p, table_arg_tables (append_current_table st1)))))"

section \<open>Recovering the metadata from the tree (\<^verbatim>\<open>transforms/util/ccpp_descriptors.py\<close>)\<close>

text \<open>
  The operations of the \<^verbatim>\<open>ccpp\<close> dialect that carry metadata: a table with its name, its
  type and its body; an argument with its name, its string properties and whether the
  \<open>optional\<close> property is present; any other operation with its children.
\<close>

datatype ccpp_op =
    TablePropertiesOp string string "ccpp_op list"
  | ArgumentTableOp string string "ccpp_op list"
  | ArgumentOp string "(string, string) dict" bool
  | OtherCcppOp string "ccpp_op list"

text \<open>
  The fields of \<^verbatim>\<open>BuildMetaDataDescriptions\<close>. The constructor assigns \<^verbatim>\<open>self.meta_data\<close>
  only (it binds \<^verbatim>\<open>arg_token\<close> and \<^verbatim>\<open>arg_table\<close> as local names), so the two other fields do
  not exist until a method assigns them: a field is \<open>Missing\<close>, or it is \<^verbatim>\<open>None\<close>, or it
  holds a value. Reading a missing field is an \<^verbatim>\<open>AttributeError\<close>.
\<close>

datatype 'a field = Missing | IsNone | Holds 'a

record builder =
  meta_data :: "(string, CCPPTableProperties) dict"
  arg_table :: "(string \<times> CCPPArgumentTable) field"
  arg_token :: "CCPPArgument field"

definition known_props :: "string list" where
  "known_props = [''standard_name'', ''long_name'', ''kind'', ''intent'', ''units'', ''type'']"

text \<open>The loop of \<^verbatim>\<open>traverse_argument_op\<close> over the known properties.\<close>

fun copy_known_props :: "string list \<Rightarrow> (string, string) dict \<Rightarrow> CCPPArgument \<Rightarrow> error + CCPPArgument" where
  "copy_known_props [] properties arg = Inr arg"
| "copy_known_props (kp # kps) properties arg =
     (case map_of properties kp of
        None \<Rightarrow> copy_known_props kps properties arg
      | Some v \<Rightarrow> err_bind (setAttr arg kp v None) (copy_known_props kps properties))"

text \<open>
  Modelled from the spec: the class \<^verbatim>\<open>Visitor\<close> of \<^verbatim>\<open>ccpp_dsl.util.visitor\<close> is not among the
  sources. The spec describes it as a generic visitor that dispatches on the kind of the
  node; so \<open>traverse\<close> calls the method of the builder for a table, an argument table and an
  argument, and visits the children of any other operation in order.

  The three methods are the source's. \<open>table_loop\<close> and \<open>arg_loop\<close> are the loops of
  \<^verbatim>\<open>traverse_table_properties_op\<close> and \<^verbatim>\<open>traverse_argument_table_op\<close> over the body, on the
  dictionary each of them fills. Storing the \<open>optional\<close> flag by item assignment on an
  argument, which the class does not support, is a \<^verbatim>\<open>TypeError\<close>.
\<close>

function traverse :: "builder \<Rightarrow> ccpp_op \<Rightarrow> error + builder"
  and traverse_children :: "builder \<Rightarrow> ccpp_op list \<Rightarrow> error + builder"
  and table_loop ::
    "builder \<Rightarrow> ccpp_op list \<Rightarrow> (string, CCPPArgumentTable) dict
       \<Rightarrow> error + (builder \<times> (string, CCPPArgumentTable) dict)"
  and arg_loop ::
    "builder \<Rightarrow> ccpp_op list \<Rightarrow> (string, CCPPArgument) dict
       \<Rightarrow> error + (builder \<times> (string, CCPPArgument) dict)" where
  "traverse b (TablePropertiesOp table_name table_type body) =
     err_bind (table_loop (b\<lparr>arg_table := IsNone\<rparr>) body []) (\<lambda>(b1, tables).
     err_bind (table_properties_setAttr \<lparr>attrs = [], arg_tables = tables\<rparr> ''name'' table_name)
       (\<lambda>p1.
     err_bind (table_properties_setAttr p1 ''type'' table_type) (\<lambda>p2.
     Inr (b1\<lparr>meta_data := AList.update table_name p2 (meta_data b1)\<rparr>))))"
| "traverse b (ArgumentTableOp table_name table_type body) =
     (case arg_table b of
        Missing \<Rightarrow> Inl AttributeError
      | Holds x \<Rightarrow> Inl AssertionError
      | IsNone \<Rightarrow>
        err_bind (arg_loop (b\<lparr>arg_token := IsNone\<rparr>) body []) (\<lambda>(b1, args).
        err_bind (arg_table_setAttr \<lparr>attrs = [], function_arguments = args\<rparr> ''name'' table_name)
          (\<lambda>t1.
        err_bind (arg_table_setAttr t1 ''type'' table_type) (\<lambda>t2.
        Inr (b1\<lparr>arg_table := Holds (table_name, t2)\<rparr>)))))"
| "traverse b (ArgumentOp arg_name properties optional) =
     (case arg_token b of
        Missing \<Rightarrow> Inl AttributeError
      | Holds x \<Rightarrow> Inl AssertionError
      | IsNone \<Rightarrow>
        err_bind (copy_known_props known_props properties \<lparr>attrs = [], name = arg_name\<rparr>)
          (\<lambda>arg.
        if optional then Inl TypeError else Inr (b\<lparr>arg_token := Holds arg\<rparr>)))"
| "traverse b (OtherCcppOp kind ops) = traverse_children b ops"
| "traverse_children b [] = Inr b"
| "traverse_children b (p # ps) = err_bind (traverse b p) (\<lambda>b1. traverse_children b1 ps)"
| "table_loop b [] tables = Inr (b, tables)"
| "table_loop b (p # ps) tables =
     err_bind (traverse b p) (\<lambda>b1.
       (case arg_table b1 of
          Missing \<Rightarrow> Inl AttributeError
        | IsNone \<Rightarrow> Inl AssertionError
        | Holds (k, v) \<Rightarrow> table_loop (b1\<lparr>arg_table := IsNone\<rparr>) ps (AList.update k v tables)))"
| "arg_loop b [] args = Inr (b, args)"
| "arg_loop b (p # ps) args =
     err_bind (traverse b p) (\<lambda>b1.
       (case arg_token b1 of
          Missing \<Rightarrow> Inl AttributeError
        | IsNone \<Rightarrow> Inl AssertionError
        | Holds a \<Rightarrow> arg_loop (b1\<lparr>arg_token := IsNone\<rparr>) ps (AList.update (name a) a args)))"
  by pat_completeness auto
termination
  by (relation "measure (\<lambda>x. case x of
          Inl (Inl (b, p)) \<Rightarrow> size p
        | Inl (Inr (b, ps)) \<Rightarrow> size_list size ps
        | Inr (Inl (b, ps, acc)) \<Rightarrow> size_list size ps
        | Inr (Inr (b, ps, acc)) \<Rightarrow> size_list size ps)") auto

definition initial_builder :: builder where
  "initial_builder = \<lparr>meta_data = [], arg_table = Missing, arg_token = Missing\<rparr>"

section \<open>Observations on a generated subroutine\<close>

text \<open>
  The depth of conditional nesting of an operation and of a block: a conditional is one
  level deeper than the deepest conditional inside either of its branches.
\<close>

fun if_depth :: "op \<Rightarrow> nat" where
  "if_depth (IfOp c ts tb fb) =
     Suc (max (fold max (map if_depth tb) 0)
              (case fb of None \<Rightarrow> 0 | Some b \<Rightarrow> fold max (map if_depth b) 0))"
| "if_depth (FuncOp n ins outs body) =
     (case body of None \<Rightarrow> 0 | Some b \<Rightarrow> fold max (map if_depth b) 0)"
| "if_depth (ModuleOp n b) = fold max (map if_depth b) 0"
| "if_depth _ = 0"

definition block_if_depth :: "op list \<Rightarrow> nat" where
  "block_if_depth b = fold max (map if_depth b) 0"

text \<open>
  The order in which names are first seen in a list, skipping those of a set already seen,
  and the argument names of the tables of a list of schemes, in scheme order.
\<close>

fun first_seen :: "'a set \<Rightarrow> 'a list \<Rightarrow> 'a list" where
  "first_seen S [] = []"
| "first_seen S (x # xs) = (if x \<in> S then first_seen S xs else x # first_seen (insert x S) xs)"

fun flat_arg_names :: "(string, CCPPArgumentTable) dict \<Rightarrow> string list \<Rightarrow> string list" where
  "flat_arg_names tables [] = []"
| "flat_arg_names tables (s # ss) =
     (case map_of tables s of None \<Rightarrow> [] | Some t \<Rightarrow> map name (getFunctionArguments t))
     @ flat_arg_names tables ss"

text \<open>
  The shape of the guard of one scheme: the zero constant, the comparison of the loaded
  \<open>errflg\<close> slot with it, the load, and the conditional on that comparison whose single
  branch is the call, one copy per result in result order, and the terminator.
\<close>

definition const_zero :: op where
  "const_zero = ConstantOp (IntegerAttr 0 (IntegerType 32))"

definition errflg_test :: "op \<Rightarrow> ssa" where
  "errflg_test slot =
     result (CmpiOp 0 (result (LoadOp (result slot) []))
                      (result (ConstantOp (IntegerAttr 0 (IntegerType 32)))))"

definition copy_backs :: "op \<Rightarrow> op list \<Rightarrow> op list" where
  "copy_backs call_op out_tracking =
     map (\<lambda>(idx, out_var). CopyOp (OpResult call_op idx) (result out_var))
         (enumerate 0 out_tracking)"

definition guarded_group :: "op \<Rightarrow> op \<Rightarrow> op list \<Rightarrow> op list" where
  "guarded_group slot call_op out_tracking =
     [const_zero,
      CmpiOp 0 (result (LoadOp (result slot) [])) (result const_zero),
      LoadOp (result slot) [],
      IfOp (errflg_test slot) [] ([call_op] @ copy_backs call_op out_tracking @ [YieldOp []]) None]"

text \<open>What is read off a generated function: its allocations, guards and returned slots.\<close>

fun is_alloca :: "op \<Rightarrow> bool" where
  "is_alloca (AllocaOp l t sh) = True"
| "is_alloca _ = False"

fun guard_of :: "op \<Rightarrow> (ssa \<times> string) list" where
  "guard_of (IfOp c ts (CallOp n ins ots # rest) fb) = [(c, n)]"
| "guard_of _ = []"

definition top_level_guards :: "op \<Rightarrow> (ssa \<times> string) list" where
  "top_level_guards f =
     (case f of FuncOp n ins outs (Some body) \<Rightarrow> concat (map guard_of body) | _ \<Rightarrow> [])"

fun slot_label :: "ssa \<Rightarrow> string list" where
  "slot_label (OpResult (AllocaOp l t sh) i) = [l]"
| "slot_label _ = []"

fun returned_of :: "op \<Rightarrow> ssa list" where
  "returned_of (ReturnOp vs) = vs"
| "returned_of _ = []"

definition returned_slots :: "op \<Rightarrow> string list" where
  "returned_slots f =
     (case f of FuncOp n ins outs (Some body) \<Rightarrow>
        concat (map slot_label (concat (map returned_of body))) | _ \<Rightarrow> [])"

definition phase_if_depth :: "error + (op \<times> op list) \<Rightarrow> error + nat" where
  "phase_if_depth r = (case r of Inl e \<Rightarrow> Inl e | Inr (f, d) \<Rightarrow> Inr (if_depth f))"

definition phase_outputs :: "error + (op \<times> op list) \<Rightarrow> error + ty list" where
  "phase_outputs r =
     (case r of Inl e \<Rightarrow> Inl e
      | Inr (f, d) \<Rightarrow> (case f of FuncOp n ins outs b \<Rightarrow> Inr outs | _ \<Rightarrow> Inr []))"

text \<open>
  The operations that \<^verbatim>\<open>print_expr\<close> renders, and the text a run of the emitter has
  written.
\<close>

fun is_expr_op :: "op \<Rightarrow> bool" where
  "is_expr_op (ConstantOp v) = True"
| "is_expr_op (LoadOp arr idxs) = True"
| "is_expr_op (CmpiOp v l r) = True"
| "is_expr_op _ = False"


text \<open>
  The name bindings a context sees, and the prefix of a synthesized name: the hint of the
  value when it has one, otherwise \<open>v\<close>.
\<close>

definition bindings :: "store \<Rightarrow> nat \<Rightarrow> (ssa, string) dict" where
  "bindings h self = var_dicts h (variables (ctxs h self))"

definition default_prefix :: "ir_info \<Rightarrow> ssa \<Rightarrow> string" where
  "default_prefix ir val = (case name_hint ir val of None \<Rightarrow> ''v'' | Some p \<Rightarrow> p)"

text \<open>
  What is read off the store after a run of the emitter: the counter of a context, the name
  that a context has for a value, and the name that a context would give next to a value.
\<close>

definition counter_after :: "error + store \<Rightarrow> nat \<Rightarrow> error + int" where
  "counter_after r c = (case r of Inl e \<Rightarrow> Inl e | Inr h \<Rightarrow> Inr (counter (ctxs h c)))"

definition name_after :: "error + store \<Rightarrow> nat \<Rightarrow> ssa \<Rightarrow> error + string option" where
  "name_after r c v = (case r of Inl e \<Rightarrow> Inl e | Inr h \<Rightarrow> Inr (map_of (bindings h c) v))"

definition next_name_after :: "ir_info \<Rightarrow> error + store \<Rightarrow> nat \<Rightarrow> ssa \<Rightarrow> error + string" where
  "next_name_after ir r c v =
     (case r of Inl e \<Rightarrow> Inl e | Inr h \<Rightarrow> Inr (fst (get_variable_name_for ir c h v None)))"


text \<open>
  A context of the store is allocated when it and its variables dictionary lie below the
  next free address. \<open>frame c h h'\<close> says what work on the context \<open>c\<close> leaves alone from
  \<open>h\<close> to \<open>h'\<close>: every other context and dictionary allocated in \<open>h\<close>, the operator tables,
  and the references of \<open>c\<close> itself.
\<close>

definition wf_ctx :: "nat \<Rightarrow> store \<Rightarrow> bool" where
  "wf_ctx c h = (c < next_addr h \<and> variables (ctxs h c) < next_addr h)"

definition frame :: "nat \<Rightarrow> store \<Rightarrow> store \<Rightarrow> bool" where
  "frame c h h' =
     (next_addr h \<le> next_addr h'
    \<and> (\<forall>a. a < next_addr h \<and> a \<noteq> c \<longrightarrow> ctxs h' a = ctxs h a)
    \<and> (\<forall>a. a < next_addr h \<and> a \<noteq> variables (ctxs h c) \<longrightarrow> var_dicts h' a = var_dicts h a)
    \<and> binop_dicts h' = binop_dicts h \<and> cmp_dicts h' = cmp_dicts h
    \<and> variables (ctxs h' c) = variables (ctxs h c)
    \<and> prefix (ctxs h' c) = prefix (ctxs h c)
    \<and> binops (ctxs h' c) = binops (ctxs h c)
    \<and> cmp_ops (ctxs h' c) = cmp_ops (ctxs h c))"

text \<open>
  Observations on the metadata. A line of the file is the header of an argument table when
  the parser reads the token \<open>ccpp-arg-table\<close> from it; the parser has seen the tables of its
  list and the one it is reading. Of a parsed file we look at its tables in the order of
  the list, each with its name and the names of its arguments; of a built descriptor at the
  table names of each unit with the argument names of each table.
\<close>

definition is_arg_table_header :: "string \<Rightarrow> bool" where
  "is_arg_table_header line =
     (is_bracket_line (strip line) \<and> bracket_token (strip line) = ''ccpp-arg-table'')"

definition tables_seen :: "parser \<Rightarrow> nat" where
  "tables_seen st = length (table_arg_tables st)
                    + (case current_arg_table st of None \<Rightarrow> 0 | Some t \<Rightarrow> 1)"

definition parsed_tables ::
  "error + (CCPPItem \<times> CCPPArgumentTable list)
     \<Rightarrow> error + ((error + string) \<times> string list) list" where
  "parsed_tables r =
     (case r of
        Inl e \<Rightarrow> Inl e
      | Inr (p, ts) \<Rightarrow> Inr (map (\<lambda>t. (getAttr t ''name'', map fst (function_arguments t))) ts))"

definition built_tables ::
  "error + builder \<Rightarrow> error + (string \<times> (string \<times> string list) list) list" where
  "built_tables r =
     (case r of
        Inl e \<Rightarrow> Inl e
      | Inr b \<Rightarrow> Inr (map (\<lambda>(n, p). (n, map (\<lambda>(k, t). (k, map fst (function_arguments t)))
                                              (arg_tables p)))
                          (meta_data b)))"

section \<open>Example inputs\<close>

definition ex_arg :: "string \<Rightarrow> string \<Rightarrow> string \<Rightarrow> CCPPArgument" where
  "ex_arg n t i = \<lparr>attrs = [(''type'', t), (''intent'', i)], name = n\<rparr>"

definition ex_table :: "string \<Rightarrow> CCPPArgument list \<Rightarrow> CCPPArgumentTable" where
  "ex_table n as = \<lparr>attrs = [(''name'', n), (''type'', ''scheme'')],
                     function_arguments = map (\<lambda>a. (name a, a)) as\<rparr>"

definition ex_inout_table :: CCPPArgumentTable where
  "ex_inout_table = ex_table ''T_init'' [ex_arg ''errflg'' ''integer'' ''inout'']"

definition ex_nointent_table :: CCPPArgumentTable where
  "ex_nointent_table =
     ex_table ''T_init'' [\<lparr>attrs = [(''type'', ''integer'')], name = ''errflg''\<rparr>]"

definition ex_errflg_slot :: op where
  "ex_errflg_slot = AllocaOp ''errflg'' (IntegerType 32) []"

definition ex_A_init :: CCPPArgumentTable where
  "ex_A_init = ex_table ''A_init''
     [ex_arg ''x'' ''real'' ''in'', ex_arg ''errflg'' ''integer'' ''out'']"

definition ex_B_init :: CCPPArgumentTable where
  "ex_B_init = ex_table ''B_init''
     [ex_arg ''x'' ''real'' ''in'', ex_arg ''errflg'' ''integer'' ''out'',
      ex_arg ''y'' ''real'' ''out'']"

definition ex_props :: "string \<Rightarrow> (string, CCPPArgumentTable) dict \<Rightarrow> CCPPTableProperties" where
  "ex_props n ts = \<lparr>attrs = [(''name'', n), (''type'', ''scheme'')], arg_tables = ts\<rparr>"

definition ex_meta_data :: "(string, CCPPTableProperties) dict" where
  "ex_meta_data = [(''A'', ex_props ''A'' [(''A_init'', ex_A_init)]),
                   (''B'', ex_props ''B'' [(''B_init'', ex_B_init)])]"

definition ex_sigs :: "(string, op) dict" where
  "ex_sigs =
     [(''A_init'', FuncOp ''A_init'' [MemRefType Float64Type []] [MemRefType (IntegerType 32) []] None),
      (''B_init'', FuncOp ''B_init'' [MemRefType Float64Type []]
                     [MemRefType (IntegerType 32) [], MemRefType Float64Type []] None)]"

definition ex_suite :: XMLSuiteBase where
  "ex_suite = XMLSuiteBase [(''name'', ''S''), (''version'', ''1'')]
     [XMLSuiteBase [(''name'', ''physics'')]
        [XMLSuiteBase [(''name'', ''A'')] [], XMLSuiteBase [(''name'', ''B'')] []]]"

definition ex_char_arg :: "string \<Rightarrow> CCPPArgument" where
  "ex_char_arg k = \<lparr>attrs = [(''type'', ''character''), (''kind'', k), (''intent'', ''in'')],
                     name = ''buf''\<rparr>"

definition ex_kind_meta_data :: "(string, CCPPTableProperties) dict" where
  "ex_kind_meta_data =
     [(''A'', ex_props ''A'' [(''A_init'', ex_table ''A_init''
          [ex_char_arg ''len=5'', ex_arg ''errflg'' ''integer'' ''out''])]),
      (''B'', ex_props ''B'' [(''B_init'', ex_table ''B_init''
          [ex_char_arg ''len=10'', ex_arg ''errflg'' ''integer'' ''out''])])]"

definition ex_type_meta_data :: "(string, CCPPTableProperties) dict" where
  "ex_type_meta_data =
     [(''A'', ex_props ''A'' [(''A_init'', ex_table ''A_init''
          [ex_arg ''x'' ''real'' ''in'', ex_arg ''errflg'' ''integer'' ''out''])]),
      (''B'', ex_props ''B'' [(''B_init'', ex_table ''B_init''
          [ex_arg ''x'' ''integer'' ''in'', ex_arg ''errflg'' ''integer'' ''out''])])]"

definition ex_ir :: ir_info where
  "ex_ir = \<lparr>uses = (\<lambda>v. []), name_hint = (\<lambda>v. None),
             DYNAMIC_INDEX = - (2 ^ 63)\<rparr>"

definition ex_store :: store where
  "ex_store = register_binops 0 (snd (new_context empty_store))"

definition ex_zero :: op where
  "ex_zero = ConstantOp (IntegerAttr 0 (IntegerType 32))"

definition ex_hint_ir :: ir_info where
  "ex_hint_ir = \<lparr>uses = (\<lambda>v. []), name_hint = (\<lambda>v. Some ''x''),
                  DYNAMIC_INDEX = - (2 ^ 63)\<rparr>"

definition ex_child_body :: "op list" where
  "ex_child_body = [StoreOp (result ex_zero) (BlockArgument 0) []]"

definition ex_indexed_body :: "op list" where
  "ex_indexed_body = [StoreOp (result ex_zero) (BlockArgument 0) [BlockArgument 1]]"




text \<open>
  A metadata file with two argument tables of the name \<open>s_init\<close>, given as the text before
  the second table header, that header and the text after it; and the tree of the same
  unit.
\<close>

definition ex_metadata_head :: "string list" where
  "ex_metadata_head =
     [''[ccpp-table-properties]'', ''  name = s'', ''  type = scheme'',
      ''[ccpp-arg-table]'', ''  name = s_init'', ''  type = scheme'',
      ''[ errflg ]'', ''  type = integer'', ''  intent = out'']"

definition ex_metadata_tail :: "string list" where
  "ex_metadata_tail =
     [''  name = s_init'', ''  type = scheme'', ''[ errmsg ]'', ''  type = character'']"

definition ex_metadata_file :: "string list" where
  "ex_metadata_file = ex_metadata_head @ ''[ccpp-arg-table]'' # ex_metadata_tail"

definition ex_first_table :: ccpp_op where
  "ex_first_table =
     ArgumentTableOp ''s_init'' ''scheme''
       [ArgumentOp ''errflg'' [(''name'', ''errflg''), (''type'', ''integer''),
                               (''intent'', ''out'')] False]"

definition ex_second_table :: ccpp_op where
  "ex_second_table =
     ArgumentTableOp ''s_init'' ''scheme''
       [ArgumentOp ''errmsg'' [(''name'', ''errmsg''), (''type'', ''character''),
                               (''kind'', ''len=512'')] False]"

definition ex_metadata_op :: ccpp_op where
  "ex_metadata_op = TablePropertiesOp ''s'' ''scheme'' [ex_first_table, ex_second_table]"

section \<open>Properties of the CAP generation engine\<close>

lemmas ex_table_defs =
  ex_inout_table_def ex_nointent_table_def ex_table_def ex_arg_def ex_errflg_slot_def

lemmas eval_defs =
  err_bind_def dict_get_def dict_values_def getFunctionArguments_def getAttr_def hasAttr_def
  getBaseType_def TEXT_TYPE_TO_MLIR_TYPE_def Let_def

lemma err_bind_Inr_iff: "err_bind m f = Inr y \<longleftrightarrow> (\<exists>x. m = Inr x \<and> f x = Inr y)"
  by (cases m) (auto simp: err_bind_def)

lemma err_bind_Inl_iff:
  "err_bind m f = Inl e \<longleftrightarrow> (m = Inl e \<or> (\<exists>x. m = Inr x \<and> f x = Inl e))"
  by (cases m) (auto simp: err_bind_def)

lemma dict_get_Inr_iff: "dict_get d k = Inr v \<longleftrightarrow> map_of d k = Some v"
  by (auto simp: dict_get_def split: option.splits)

lemma update_fresh: "k \<notin> fst ` set al \<Longrightarrow> AList.update k v al = al @ [(k, v)]"
  by (induction al) auto

lemma map_of_None_iff: "map_of al k = None \<longleftrightarrow> k \<notin> fst ` set al"
  by (simp add: map_of_eq_None_iff)

lemma first_seen_append:
  "first_seen S (xs @ ys) = first_seen S xs @ first_seen (S \<union> set xs) ys"
  by (induction xs arbitrary: S) (auto simp: insert_absorb)

lemma collect_arg_tables_lookup:
  "collect_arg_tables md names post acc = Inr tables \<Longrightarrow> s \<in> set names \<Longrightarrow>
     \<exists>t. map_of tables s = Some t \<and> getArgumentTable md s (s @ post) = Inr t"
  and collect_arg_tables_other:
  "collect_arg_tables md names post acc = Inr tables \<Longrightarrow> s \<notin> set names \<Longrightarrow>
     map_of tables s = map_of acc s"
proof (induction names arbitrary: acc)
  case Nil
  { case 1 then show ?case by simp }
  { case 2 then show ?case by simp }
next
  case (Cons n names)
  { case 1
    from 1(1) obtain t where t: "getArgumentTable md n (n @ post) = Inr t"
      and rest: "collect_arg_tables md names post (AList.update n t acc) = Inr tables"
      by (auto simp: err_bind_Inr_iff)
    show ?case
    proof (cases "s \<in> set names")
      case True
      then show ?thesis using Cons.IH(1)[OF rest] by blast
    next
      case False
      then have "s = n" using 1(2) by simp
      moreover have "map_of tables n = map_of (AList.update n t acc) n"
        using Cons.IH(2)[OF rest] False \<open>s = n\<close> by blast
      ultimately show ?thesis using t by (simp add: update_conv')
    qed }
  { case 2
    from 2(1) obtain t where
      rest: "collect_arg_tables md names post (AList.update n t acc) = Inr tables"
      by (auto simp: err_bind_Inr_iff)
    show ?case using Cons.IH(2)[OF rest] 2(2) by (simp add: update_conv') }
qed

lemma register_args_keys:
  "register_args args req = Inr req' \<Longrightarrow>
     map fst req' = map fst req @ first_seen (set (map fst req)) (map name args)"
proof (induction args arbitrary: req)
  case Nil
  then show ?case by simp
next
  case (Cons a args)
  show ?case
  proof (cases "map_of req (name a)")
    case None
    then have fresh: "name a \<notin> fst ` set req" by (simp add: map_of_eq_None_iff)
    from Cons.prems None have "register_args args (AList.update (name a) a req) = Inr req'"
      by simp
    from Cons.IH[OF this] fresh show ?thesis
      by (simp add: update_fresh)
  next
    case (Some first)
    then have seen: "name a \<in> fst ` set req" by (metis map_of_eq_None_iff option.distinct(1))
    from Cons.prems Some have "register_args args req = Inr req'"
      by (auto simp: err_bind_Inr_iff split: if_splits)
    from Cons.IH[OF this] seen show ?thesis by simp
  qed
qed

lemma register_args_keeps:
  "register_args args req = Inr req' \<Longrightarrow> map_of req k = Some v \<Longrightarrow> map_of req' k = Some v"
proof (induction args arbitrary: req)
  case Nil
  then show ?case by simp
next
  case (Cons a args)
  show ?case
  proof (cases "map_of req (name a)")
    case None
    with Cons.prems have r: "register_args args (AList.update (name a) a req) = Inr req'"
      by simp
    have "k \<noteq> name a" using None Cons.prems(2) by auto
    then have "map_of (AList.update (name a) a req) k = Some v"
      using Cons.prems(2) by (simp add: update_conv')
    from Cons.IH[OF r this] show ?thesis .
  next
    case (Some first)
    with Cons.prems have "register_args args req = Inr req'"
      by (auto simp: err_bind_Inr_iff split: if_splits)
    from Cons.IH[OF this Cons.prems(2)] show ?thesis .
  qed
qed

lemma register_args_agree:
  "register_args args req = Inr req' \<Longrightarrow> a \<in> set args \<Longrightarrow>
     \<exists>first. map_of req' (name a) = Some first \<and> getAttr a ''type'' = getAttr first ''type''"
proof (induction args arbitrary: req)
  case Nil
  then show ?case by simp
next
  case (Cons b args)
  show ?case
  proof (cases "map_of req (name b)")
    case None
    with Cons.prems have r: "register_args args (AList.update (name b) b req) = Inr req'"
      by simp
    show ?thesis
    proof (cases "a = b")
      case True
      have "map_of (AList.update (name b) b req) (name b) = Some b" by (simp add: update_conv')
      from register_args_keeps[OF r this] True show ?thesis by auto
    next
      case False
      then have "a \<in> set args" using Cons.prems(2) by simp
      from Cons.IH[OF r this] show ?thesis .
    qed
  next
    case (Some first)
    with Cons.prems have r: "register_args args req = Inr req'"
      and eq: "getAttr b ''type'' = getAttr first ''type''"
      by (auto simp: err_bind_Inr_iff split: if_splits)
    show ?thesis
    proof (cases "a = b")
      case True
      from register_args_keeps[OF r Some] eq True show ?thesis by auto
    next
      case False
      then have "a \<in> set args" using Cons.prems(2) by simp
      from Cons.IH[OF r this] show ?thesis .
    qed
  qed
qed

lemma set_first_seen: "set (first_seen S xs) = set xs - S"
  by (induction xs arbitrary: S) auto

lemma distinct_first_seen: "distinct (first_seen S xs)"
  by (induction xs arbitrary: S) (auto simp: set_first_seen)

lemma register_args_error: "register_args args req = Inl e \<Longrightarrow> e = AssertionError"
proof (induction args arbitrary: req)
  case Nil
  then show ?case by simp
next
  case (Cons a args)
  then show ?case
    by (auto simp: err_bind_Inl_iff getAttr_def split: option.splits if_splits)
qed

lemma required_args_error:
  "required_args names tables req = Inl e \<Longrightarrow> \<forall>s \<in> set names. map_of tables s \<noteq> None \<Longrightarrow>
     e = AssertionError"
proof (induction names arbitrary: req)
  case Nil
  then show ?case by simp
next
  case (Cons n names)
  then show ?case
    by (auto simp: err_bind_Inl_iff dict_get_def dest: register_args_error split: option.splits)
qed

lemma required_args_keeps:
  "required_args names tables req = Inr req' \<Longrightarrow> map_of req k = Some v \<Longrightarrow>
     map_of req' k = Some v"
proof (induction names arbitrary: req)
  case Nil
  then show ?case by simp
next
  case (Cons n names)
  from Cons.prems(1) obtain t mid where
    "register_args (getFunctionArguments t) req = Inr mid"
    "required_args names tables mid = Inr req'"
    by (auto simp: err_bind_Inr_iff)
  then show ?case using Cons.IH Cons.prems(2) register_args_keeps by blast
qed

lemma required_args_agree:
  "required_args names tables req = Inr req' \<Longrightarrow> s \<in> set names \<Longrightarrow>
   map_of tables s = Some t \<Longrightarrow> a \<in> set (getFunctionArguments t) \<Longrightarrow>
     \<exists>first. map_of req' (name a) = Some first \<and> getAttr a ''type'' = getAttr first ''type''"
proof (induction names arbitrary: req)
  case Nil
  then show ?case by simp
next
  case (Cons n names)
  from Cons.prems(1) obtain t' mid where
    t': "map_of tables n = Some t'" and
    reg: "register_args (getFunctionArguments t') req = Inr mid" and
    rest: "required_args names tables mid = Inr req'"
    by (auto simp: err_bind_Inr_iff dict_get_Inr_iff)
  show ?case
  proof (cases "s = n")
    case True
    then have "t' = t" using t' Cons.prems(3) by simp
    with reg Cons.prems(4) obtain first where
      "map_of mid (name a) = Some first" "getAttr a ''type'' = getAttr first ''type''"
      using register_args_agree by blast
    then show ?thesis using required_args_keeps[OF rest] by blast
  next
    case False
    then have "s \<in> set names" using Cons.prems(2) by simp
    from Cons.IH[OF rest this Cons.prems(3) Cons.prems(4)] show ?thesis .
  qed
qed

lemma required_args_keys:
  "required_args names tables req = Inr req' \<Longrightarrow>
     map fst req' = map fst req @ first_seen (set (map fst req)) (flat_arg_names tables names)"
proof (induction names arbitrary: req)
  case Nil
  then show ?case by simp
next
  case (Cons n names)
  from Cons.prems(1) obtain t mid where
    t: "map_of tables n = Some t" and
    reg: "register_args (getFunctionArguments t) req = Inr mid" and
    rest: "required_args names tables mid = Inr req'"
    by (auto simp: err_bind_Inr_iff dict_get_Inr_iff)
  have mid: "map fst mid = map fst req @ first_seen (set (map fst req)) (map name (getFunctionArguments t))"
    by (simp add: register_args_keys[OF reg])
  have "set (map fst mid) = set (map fst req) \<union> set (map name (getFunctionArguments t))"
    unfolding mid by (auto simp: set_first_seen)
  with Cons.IH[OF rest] mid t show ?case
    by (simp add: first_seen_append)
qed

lemma set_update_subset: "set (AList.update k v al) \<subseteq> insert (k, v) (set al)"
  by (induction al) auto

lemma register_args_named:
  "register_args args req = Inr req' \<Longrightarrow> \<forall>(k, a) \<in> set req. k = name a \<Longrightarrow>
     \<forall>(k, a) \<in> set req'. k = name a"
proof (induction args arbitrary: req)
  case Nil
  then show ?case by simp
next
  case (Cons b args)
  show ?case
  proof (cases "map_of req (name b)")
    case None
    with Cons.prems have r: "register_args args (AList.update (name b) b req) = Inr req'"
      by simp
    have "\<forall>(k, a) \<in> set (AList.update (name b) b req). k = name a"
      using set_update_subset[of "name b" b req] Cons.prems(2) by auto
    from Cons.IH[OF r this] show ?thesis .
  next
    case (Some first)
    with Cons.prems have "register_args args req = Inr req'"
      by (auto simp: err_bind_Inr_iff split: if_splits)
    from Cons.IH[OF this Cons.prems(2)] show ?thesis .
  qed
qed

lemma required_args_named:
  "required_args names tables req = Inr req' \<Longrightarrow> \<forall>(k, a) \<in> set req. k = name a \<Longrightarrow>
     \<forall>(k, a) \<in> set req'. k = name a"
proof (induction names arbitrary: req)
  case Nil
  then show ?case by simp
next
  case (Cons n names)
  from Cons.prems(1) obtain t mid where
    "register_args (getFunctionArguments t) req = Inr mid"
    "required_args names tables mid = Inr req'"
    by (auto simp: err_bind_Inr_iff)
  then show ?case using Cons.IH Cons.prems(2) register_args_named by blast
qed

lemma required_args_distinct:
  "required_args names tables [] = Inr req \<Longrightarrow> distinct (map fst req)"
  using required_args_keys[of names tables "[]" req] by (simp add: distinct_first_seen)

lemma alloc_for_shape: "alloc_for a = Inr p \<Longrightarrow> \<exists>t sh. p = AllocaOp (name a) t sh"
  by (auto simp: alloc_for_def err_bind_Inr_iff split: if_splits)

lemma alloc_loop_zip:
  "alloc_loop args acc = Inr d \<Longrightarrow> distinct (map name args) \<Longrightarrow>
   set (map name args) \<inter> fst ` set acc = {} \<Longrightarrow>
     \<exists>ops. d = acc @ zip (map name args) ops \<and> list_all2 (\<lambda>a p. alloc_for a = Inr p) args ops"
proof (induction args arbitrary: acc)
  case Nil
  then show ?case by simp
next
  case (Cons a args)
  from Cons.prems(1) obtain p where p: "alloc_for a = Inr p"
    and rest: "alloc_loop args (AList.update (name a) p acc) = Inr d"
    by (auto simp: err_bind_Inr_iff)
  have fresh: "name a \<notin> fst ` set acc" using Cons.prems(3) by auto
  then have upd: "AList.update (name a) p acc = acc @ [(name a, p)]" by (rule update_fresh)
  have "set (map name args) \<inter> fst ` set (acc @ [(name a, p)]) = {}"
    using Cons.prems(2,3) by auto
  with Cons.IH[of "acc @ [(name a, p)]"] rest upd Cons.prems(2)
  obtain ops where "d = (acc @ [(name a, p)]) @ zip (map name args) ops"
    "list_all2 (\<lambda>a p. alloc_for a = Inr p) args ops" by auto
  then have "d = acc @ zip (map name (a # args)) (p # ops)
      \<and> list_all2 (\<lambda>a p. alloc_for a = Inr p) (a # args) (p # ops)"
    using p by simp
  then show ?case by blast
qed

lemma generateVariableCreation_slots:
  assumes "generateVariableCreation names tables = Inr data"
  shows "map fst data = first_seen {} (flat_arg_names tables names)"
    and "\<forall>(k, p) \<in> set data. \<exists>t sh. p = AllocaOp k t sh"
proof -
  from assms obtain req where req: "required_args names tables [] = Inr req"
    and al: "alloc_loop (dict_values req) [] = Inr data"
    by (auto simp: generateVariableCreation_def err_bind_Inr_iff)
  have named: "\<forall>(k, a) \<in> set req. k = name a"
    using required_args_named[OF req] by simp
  then have names_eq: "map name (dict_values req) = map fst req"
    by (induction req) (auto simp: dict_values_def)
  have dist: "distinct (map name (dict_values req))"
    using required_args_distinct[OF req] names_eq by simp
  from alloc_loop_zip[OF al dist] obtain ops where
    d: "data = zip (map name (dict_values req)) ops"
    and ops: "list_all2 (\<lambda>a p. alloc_for a = Inr p) (dict_values req) ops" by auto
  have len: "length ops = length (dict_values req)" using ops by (simp add: list_all2_lengthD)
  have "length (map name (dict_values req)) = length ops" using len by simp
  then have "map fst data = map name (dict_values req)"
    unfolding d by (rule map_fst_zip)
  then show "map fst data = first_seen {} (flat_arg_names tables names)"
    using names_eq required_args_keys[OF req] by simp
  show "\<forall>(k, p) \<in> set data. \<exists>t sh. p = AllocaOp k t sh"
  proof -
    have "\<And>k p. (k, p) \<in> set data \<Longrightarrow> \<exists>t sh. p = AllocaOp k t sh"
    proof -
      fix k p assume "(k, p) \<in> set data"
      then obtain i where i: "i < length ops" "k = name (dict_values req ! i)" "p = ops ! i"
        unfolding d using len by (auto simp: set_zip)
      then have "alloc_for (dict_values req ! i) = Inr (ops ! i)"
        using ops by (simp add: list_all2_conv_all_nth)
      then show "\<exists>t sh. p = AllocaOp k t sh" using i alloc_for_shape by blast
    qed
    then show ?thesis by blast
  qed
qed

lemma call_args_lengths:
  "call_args args data (ins, ots, otr) = Inr (ins', ots', otr') \<Longrightarrow>
     length ots = length otr \<Longrightarrow> length ots' = length otr'"
proof (induction args arbitrary: ins ots otr)
  case Nil
  then show ?case by simp
next
  case (Cons a args)
  then show ?case
    by (auto simp: err_bind_Inr_iff split: if_splits)
qed

lemma generateSchemeSubroutineCallOps_shape:
  assumes "generateSchemeSubroutineCallOps sub t data = Inr g"
  shows "\<exists>ins ots otr slot.
           call_args (getFunctionArguments t) data ([], [], []) = Inr (ins, ots, otr)
         \<and> map_of data ''errflg'' = Some slot
         \<and> g = guarded_group slot (CallOp sub ins ots) otr"
  using assms
  by (auto simp: generateSchemeSubroutineCallOps_def err_bind_Inr_iff dict_get_Inr_iff Let_def
      guarded_group_def copy_backs_def const_zero_def errflg_test_def split: if_splits)

lemma call_loop_groups:
  "call_loop sigs tables data post names (ops0, fs0) = Inr (ops, fs) \<Longrightarrow>
     \<exists>groups. ops = ops0 @ concat groups
       \<and> list_all2 (\<lambda>s g. \<exists>t. map_of tables s = Some t
              \<and> generateSchemeSubroutineCallOps (s @ post) t data = Inr g) names groups"
proof (induction names arbitrary: ops0 fs0)
  case Nil
  then show ?case by simp
next
  case (Cons n names)
  from Cons.prems obtain sig t g fs1 where
    t: "map_of tables n = Some t"
    and g: "generateSchemeSubroutineCallOps (n @ post) t data = Inr g"
    and rest: "call_loop sigs tables data post names (ops0 @ g, fs1) = Inr (ops, fs)"
    by (auto simp: err_bind_Inr_iff dict_get_Inr_iff split: option.splits)
  from Cons.IH[OF rest] obtain groups where
    "ops = (ops0 @ g) @ concat groups"
    "list_all2 (\<lambda>s g. \<exists>t. map_of tables s = Some t
              \<and> generateSchemeSubroutineCallOps (s @ post) t data = Inr g) names groups"
    by blast
  then have "ops = ops0 @ concat (g # groups)
     \<and> list_all2 (\<lambda>s g. \<exists>t. map_of tables s = Some t
              \<and> generateSchemeSubroutineCallOps (s @ post) t data = Inr g) (n # names) (g # groups)"
    using t g by simp
  then show ?case by blast
qed

lemma generateSubroutineCall_structure:
  assumes "generateSubroutineCall md sigs suite post gen = Inr (f, d)"
  shows "\<exists>names tables data slot groups fname outs.
      getSchemeNames suite = Inr names
    \<and> collect_arg_tables md names post [] = Inr tables
    \<and> generateVariableCreation names tables = Inr data
    \<and> map_of data ''errflg'' = Some slot
    \<and> list_all2 (\<lambda>s g. \<exists>t. map_of tables s = Some t
          \<and> generateSchemeSubroutineCallOps (s @ post) t data = Inr g) names groups
    \<and> f = FuncOp fname [] outs
          (Some (dict_values data @ [const_zero, StoreOp (result const_zero) (result slot) []]
                 @ concat groups @ [ReturnOp (map result (dict_values data))]))"
proof -
  from assms obtain names tables data init call_ops fn_sigs outs sname where
    n: "getSchemeNames suite = Inr names"
    and t: "collect_arg_tables md names post [] = Inr tables"
    and v: "generateVariableCreation names tables = Inr data"
    and i: "generateVariableInitialisations data = Inr init"
    and c: "call_loop sigs tables data post names ([], []) = Inr (call_ops, fn_sigs)"
    and f: "f = FuncOp (sname @ ''_suite'' @ (case gen of None \<Rightarrow> post | Some g \<Rightarrow> g)) [] outs
              (Some (dict_values data @ init @ call_ops @ [ReturnOp (map result (dict_values data))]))"
    by (auto simp: generateSubroutineCall_def err_bind_Inr_iff Let_def split: prod.splits)
  from i obtain slot where s: "map_of data ''errflg'' = Some slot"
    and init: "init = [const_zero, StoreOp (result const_zero) (result slot) []]"
    by (auto simp: generateVariableInitialisations_def err_bind_Inr_iff dict_get_Inr_iff
        Let_def const_zero_def)
  from call_loop_groups[OF c] obtain groups where
    g: "call_ops = concat groups"
    "list_all2 (\<lambda>s g. \<exists>t. map_of tables s = Some t
          \<and> generateSchemeSubroutineCallOps (s @ post) t data = Inr g) names groups"
    by auto
  show ?thesis using n t v s g f init by blast
qed

lemma fold_max_init: "fold max xs (a::nat) = max a (fold max xs 0)"
proof (induction xs arbitrary: a)
  case Nil
  then show ?case by simp
next
  case (Cons x xs)
  have l: "fold max (x # xs) a = max (max x a) (fold max xs 0)"
    using Cons.IH[of "max x a"] by simp
  have r: "fold max (x # xs) 0 = max x (fold max xs 0)"
    using Cons.IH[of x] by simp
  show ?case unfolding l r by (simp add: max.assoc max.left_commute max.commute)
qed

lemma block_if_depth_Nil: "block_if_depth [] = 0"
  by (simp add: block_if_depth_def)

lemma block_if_depth_Cons: "block_if_depth (x # xs) = max (if_depth x) (block_if_depth xs)"
  using fold_max_init[of "map if_depth xs" "if_depth x"] by (simp add: block_if_depth_def)

lemma block_if_depth_append:
  "block_if_depth (xs @ ys) = max (block_if_depth xs) (block_if_depth ys)"
  by (induction xs) (simp_all add: block_if_depth_Nil block_if_depth_Cons max.assoc)

lemma block_if_depth_allocs: "list_all is_alloca xs \<Longrightarrow> block_if_depth xs = 0"
proof (induction xs)
  case Nil
  then show ?case by (simp add: block_if_depth_Nil)
next
  case (Cons x xs)
  then show ?case by (cases x) (simp_all add: block_if_depth_Cons)
qed

lemma block_if_depth_copy_backs: "block_if_depth (copy_backs c otr) = 0"
proof -
  have "\<And>n. block_if_depth (map (\<lambda>(idx, out_var). CopyOp (OpResult c idx) (result out_var))
           (enumerate n otr)) = 0"
  proof -
    fix n show "block_if_depth (map (\<lambda>(idx, out_var). CopyOp (OpResult c idx) (result out_var))
           (enumerate n otr)) = 0"
      by (induction otr arbitrary: n) (simp_all add: block_if_depth_Nil block_if_depth_Cons)
  qed
  then show ?thesis by (simp add: copy_backs_def)
qed

lemma if_depth_IfOp: "if_depth (IfOp c ts tb None) = Suc (block_if_depth tb)"
  by (simp add: block_if_depth_def)

lemma block_if_depth_group:
  "block_if_depth (guarded_group slot (CallOp n ins ots) otr) = 1"
  by (simp add: guarded_group_def const_zero_def block_if_depth_Cons block_if_depth_Nil
      block_if_depth_append block_if_depth_copy_backs if_depth_IfOp del: if_depth.simps(1))

lemma block_if_depth_groups:
  "\<forall>g \<in> set groups. block_if_depth g = 1 \<Longrightarrow>
     block_if_depth (concat groups) = (if groups = [] then 0 else 1)"
  by (induction groups) (auto simp: block_if_depth_Nil block_if_depth_append)

lemma guards_allocs: "list_all is_alloca xs \<Longrightarrow> concat (map guard_of xs) = []"
proof (induction xs)
  case Nil
  then show ?case by simp
next
  case (Cons x xs)
  then show ?case by (cases x) simp_all
qed

lemma guards_group:
  "concat (map guard_of (guarded_group slot (CallOp n ins ots) otr)) = [(errflg_test slot, n)]"
  by (simp add: guarded_group_def const_zero_def)

lemma slots_are_allocas:
  assumes "generateVariableCreation names tables = Inr data"
  shows "list_all is_alloca (dict_values data)"
proof -
  have "\<And>p. p \<in> set (dict_values data) \<Longrightarrow> is_alloca p"
    using generateVariableCreation_slots(2)[OF assms] by (auto simp: dict_values_def)
  then show ?thesis by (simp add: list_all_iff)
qed

lemma errflg_slot_shape:
  assumes "generateVariableCreation names tables = Inr data" "map_of data ''errflg'' = Some slot"
  shows "\<exists>t sh. slot = AllocaOp ''errflg'' t sh"
  using generateVariableCreation_slots(2)[OF assms(1)] map_of_SomeD[OF assms(2)] by auto

lemma groups_shape:
  assumes "list_all2 (\<lambda>s g. \<exists>t. map_of tables s = Some t
          \<and> generateSchemeSubroutineCallOps (s @ post) t data = Inr g) names groups"
    and "map_of data ''errflg'' = Some slot"
  shows "list_all2 (\<lambda>s g. \<exists>ins ots otr. g = guarded_group slot (CallOp (s @ post) ins ots) otr
            \<and> length ots = length otr) names groups"
  using assms(1)
proof (induction rule: list_all2_induct)
  case Nil
  then show ?case by simp
next
  case (Cons s names g groups)
  from Cons(1) obtain t where "generateSchemeSubroutineCallOps (s @ post) t data = Inr g" by blast
  from generateSchemeSubroutineCallOps_shape[OF this] assms(2) obtain ins ots otr where
    ca: "call_args (getFunctionArguments t) data ([], [], []) = Inr (ins, ots, otr)"
    and g: "g = guarded_group slot (CallOp (s @ post) ins ots) otr" by auto
  have "length ots = length otr" using call_args_lengths[OF ca] by simp
  with g Cons(3) show ?case by auto
qed

lemmas ex_defs = ex_A_init_def ex_B_init_def ex_props_def ex_meta_data_def ex_sigs_def
  ex_suite_def ex_char_arg_def ex_kind_meta_data_def ex_type_meta_data_def ex_table_def ex_arg_def

lemmas gen_defs = generateSubroutineCall_def getSchemeNames_def getArgumentTable_def
  getArgTable_def generateVariableCreation_def alloc_for_def generateVariableInitialisations_def
  generateSchemeSubroutineCallOps_def

lemma ex_names: "getSchemeNames ex_suite = Inr [''A'', ''B'']"
  by (simp add: getSchemeNames_def ex_suite_def eval_defs)

lemma call_args_types:
  "call_args args data (ins, ots, otr) = Inr (ins', ots', otr') \<Longrightarrow>
   list_all2 (\<lambda>t v. result_type v = Inr t) ots otr \<Longrightarrow>
     list_all2 (\<lambda>t v. result_type v = Inr t) ots' otr'"
proof (induction args arbitrary: ins ots otr)
  case Nil
  then show ?case by simp
next
  case (Cons a args)
  then show ?case
    by (auto simp: err_bind_Inr_iff list_all2_appendI split: if_splits)
qed

lemma generated_depth_and_guards:
  assumes "generateSubroutineCall md sigs suite post gen = Inr (f, d)"
    and "getSchemeNames suite = Inr names"
  shows "if_depth f = (if names = [] then 0 else 1)
       \<and> (\<exists>t sh. top_level_guards f
                   = map (\<lambda>s. (errflg_test (AllocaOp ''errflg'' t sh), s @ post)) names)"
proof -
  from generateSubroutineCall_structure[OF assms(1)] assms(2)
  obtain tables data slot groups fname outs where
    v: "generateVariableCreation names tables = Inr data"
    and s: "map_of data ''errflg'' = Some slot"
    and g: "list_all2 (\<lambda>s g. \<exists>t. map_of tables s = Some t
          \<and> generateSchemeSubroutineCallOps (s @ post) t data = Inr g) names groups"
    and f: "f = FuncOp fname [] outs
          (Some (dict_values data @ [const_zero, StoreOp (result const_zero) (result slot) []]
                 @ concat groups @ [ReturnOp (map result (dict_values data))]))"
    by auto
  have allocs: "list_all is_alloca (dict_values data)" by (rule slots_are_allocas[OF v])
  from errflg_slot_shape[OF v s] obtain t sh where slot: "slot = AllocaOp ''errflg'' t sh" by blast
  have gs: "list_all2 (\<lambda>s g. \<exists>ins ots otr. g = guarded_group slot (CallOp (s @ post) ins ots) otr
            \<and> length ots = length otr) names groups"
    by (rule groups_shape[OF g s])
  have len: "length groups = length names" using gs by (simp add: list_all2_lengthD)
  have "\<forall>g \<in> set groups. block_if_depth g = 1"
  proof
    fix g assume "g \<in> set groups"
    then obtain i where "i < length groups" "g = groups ! i" by (auto simp: in_set_conv_nth)
    with gs obtain n ins ots otr where "g = guarded_group slot (CallOp n ins ots) otr"
      by (auto simp: list_all2_conv_all_nth)
    then show "block_if_depth g = 1" by (simp add: block_if_depth_group)
  qed
  then have dg: "block_if_depth (concat groups) = (if groups = [] then 0 else 1)"
    by (rule block_if_depth_groups)
  have "if_depth f = block_if_depth (dict_values data @ [const_zero, StoreOp (result const_zero) (result slot) []]
                 @ concat groups @ [ReturnOp (map result (dict_values data))])"
    unfolding f by (simp add: block_if_depth_def)
  also have "\<dots> = (if groups = [] then 0 else 1)"
    by (simp add: block_if_depth_append block_if_depth_allocs[OF allocs] dg
        block_if_depth_Cons block_if_depth_Nil const_zero_def)
  finally have depth: "if_depth f = (if names = [] then 0 else 1)" using len by auto
  have "concat (map guard_of (concat groups)) = map (\<lambda>s. (errflg_test slot, s @ post)) names"
    using gs
  proof (induction rule: list_all2_induct)
    case Nil
    then show ?case by simp
  next
    case (Cons s names g groups)
    then show ?case by (auto simp: guards_group)
  qed
  then have "top_level_guards f = map (\<lambda>s. (errflg_test slot, s @ post)) names"
    unfolding f top_level_guards_def
    by (simp add: guards_allocs[OF allocs] const_zero_def)
  with depth slot show ?thesis by blast
qed

text \<open>
  C1, as amended. The conditionals that guard the schemes are siblings in the body of the
  generated subroutine, one per scheme in flattened order and each on the test of the
  \<open>errflg\<close> slot against zero; none is nested in another, so the depth of conditional
  nesting is 1 for a suite with at least one scheme and 0 for an empty one.
\<close>

theorem C1_guards_are_siblings:
  assumes "generateSubroutineCall md sigs suite post gen = Inr (f, d)"
    and "getSchemeNames suite = Inr names"
  shows "if_depth f = (if names = [] then 0 else 1)
       \<and> (\<exists>t sh. top_level_guards f
                   = map (\<lambda>s. (errflg_test (AllocaOp ''errflg'' t sh), s @ post)) names)"
  using assms by (rule generated_depth_and_guards)

theorem C1_guards_are_siblings_witness:
  "\<exists>f d. generateSubroutineCall ex_meta_data ex_sigs ex_suite ''_init'' (Some ''_initialize'') = Inr (f, d)
     \<and> if_depth f = 1
     \<and> (\<exists>t sh. top_level_guards f
           = [(errflg_test (AllocaOp ''errflg'' t sh), ''A_init''),
              (errflg_test (AllocaOp ''errflg'' t sh), ''B_init'')])"
proof -
  have "\<exists>f d. generateSubroutineCall ex_meta_data ex_sigs ex_suite ''_init'' (Some ''_initialize'')
           = Inr (f, d)"
    by (simp add: gen_defs ex_defs eval_defs)
  then obtain f d where
    run: "generateSubroutineCall ex_meta_data ex_sigs ex_suite ''_init'' (Some ''_initialize'')
           = Inr (f, d)" by blast
  from C1_guards_are_siblings[OF run ex_names] run show ?thesis by simp
qed

text \<open>
  C1, as stated, fails: for the suite with the two schemes \<open>A\<close> and \<open>B\<close> the depth of
  conditional nesting in the generated subroutine is 1, not 2.
\<close>

theorem C1_depth_is_not_scheme_count:
  "getSchemeNames ex_suite = Inr [''A'', ''B'']
   \<and> phase_if_depth (generateSubroutineCall ex_meta_data ex_sigs ex_suite ''_init''
        (Some ''_initialize'')) = Inr 1
   \<and> phase_if_depth (generateSubroutineCall ex_meta_data ex_sigs ex_suite ''_init''
        (Some ''_initialize'')) \<noteq> Inr (length [''A'', ''B''])"
  by (simp add: phase_if_depth_def gen_defs ex_defs eval_defs)

lemma collect_arg_tables_fails_or_resolves:
  "(\<exists>e. collect_arg_tables md names post acc = Inl e)
   \<or> (\<exists>tables. collect_arg_tables md names post acc = Inr tables)"
  by (cases "collect_arg_tables md names post acc") auto

text \<open>
  C4, as amended. If two schemes of the flattened suite declare an argument of the same
  name with different declared types, the generation fails and yields no subroutine; when
  every argument table resolves, the failure is the assertion of the consistency check.
  The kind is not compared.
\<close>

theorem C4_type_mismatch_is_fatal:
  assumes names: "getSchemeNames suite = Inr names"
    and s1: "s1 \<in> set names" "getArgumentTable md s1 (s1 @ post) = Inr t1"
    and s2: "s2 \<in> set names" "getArgumentTable md s2 (s2 @ post) = Inr t2"
    and a: "a1 \<in> set (getFunctionArguments t1)" "a2 \<in> set (getFunctionArguments t2)"
    and same: "name a1 = name a2"
    and differ: "getAttr a1 ''type'' \<noteq> getAttr a2 ''type''"
  shows "(\<exists>e. generateSubroutineCall md sigs suite post gen = Inl e)
       \<and> (\<forall>tables. collect_arg_tables md names post [] = Inr tables
            \<longrightarrow> generateSubroutineCall md sigs suite post gen = Inl AssertionError)"
proof -
  have resolved: "generateSubroutineCall md sigs suite post gen = Inl AssertionError"
    if tabs: "collect_arg_tables md names post [] = Inr tables" for tables
  proof -
    have l1: "map_of tables s1 = Some t1"
      using collect_arg_tables_lookup[OF tabs s1(1)] s1(2) by auto
    have l2: "map_of tables s2 = Some t2"
      using collect_arg_tables_lookup[OF tabs s2(1)] s2(2) by auto
    have dom: "\<forall>s \<in> set names. map_of tables s \<noteq> None"
      using collect_arg_tables_lookup[OF tabs] by fastforce
    have "required_args names tables [] = Inl AssertionError"
    proof (cases "required_args names tables []")
      case (Inl e)
      then show ?thesis using required_args_error[OF Inl dom] by simp
    next
      case (Inr req)
      from required_args_agree[OF Inr s1(1) l1 a(1)] obtain f1 where
        f1: "map_of req (name a1) = Some f1" "getAttr a1 ''type'' = getAttr f1 ''type''" by blast
      from required_args_agree[OF Inr s2(1) l2 a(2)] obtain f2 where
        f2: "map_of req (name a2) = Some f2" "getAttr a2 ''type'' = getAttr f2 ''type''" by blast
      from f1 f2 same differ show ?thesis by simp
    qed
    then show ?thesis
      using names tabs
      by (simp add: generateSubroutineCall_def generateVariableCreation_def err_bind_def)
  qed
  have "\<exists>e. generateSubroutineCall md sigs suite post gen = Inl e"
  proof (cases "collect_arg_tables md names post []")
    case (Inl e)
    then show ?thesis using names
      by (simp add: generateSubroutineCall_def err_bind_def)
  next
    case (Inr tables)
    then show ?thesis using resolved by blast
  qed
  with resolved show ?thesis by blast
qed

lemma ex_type_names_A: "getArgumentTable ex_type_meta_data ''A'' (''A'' @ ''_init'')
  = Inr (ex_table ''A_init'' [ex_arg ''x'' ''real'' ''in'', ex_arg ''errflg'' ''integer'' ''out''])"
  by (simp add: getArgumentTable_def getArgTable_def ex_type_meta_data_def ex_props_def eval_defs)

lemma ex_type_names_B: "getArgumentTable ex_type_meta_data ''B'' (''B'' @ ''_init'')
  = Inr (ex_table ''B_init'' [ex_arg ''x'' ''integer'' ''in'', ex_arg ''errflg'' ''integer'' ''out''])"
  by (simp add: getArgumentTable_def getArgTable_def ex_type_meta_data_def ex_props_def eval_defs)

theorem C4_type_mismatch_is_fatal_witness:
  "getSchemeNames ex_suite = Inr [''A'', ''B'']
   \<and> getAttr (ex_arg ''x'' ''real'' ''in'') ''type'' \<noteq> getAttr (ex_arg ''x'' ''integer'' ''in'') ''type''
   \<and> generateSubroutineCall ex_type_meta_data ex_sigs ex_suite ''_init'' None = Inl AssertionError"
proof -
  have tabs: "\<exists>tables. collect_arg_tables ex_type_meta_data [''A'', ''B''] ''_init'' [] = Inr tables"
    by (simp add: getArgumentTable_def getArgTable_def ex_type_meta_data_def ex_props_def eval_defs)
  have differ: "getAttr (ex_arg ''x'' ''real'' ''in'') ''type''
      \<noteq> getAttr (ex_arg ''x'' ''integer'' ''in'') ''type''"
    by (simp add: ex_arg_def eval_defs)
  have "name (ex_arg ''x'' ''real'' ''in'') = name (ex_arg ''x'' ''integer'' ''in'')"
    by (simp add: ex_arg_def)
  from C4_type_mismatch_is_fatal[OF ex_names _ ex_type_names_A _ ex_type_names_B _ _ this differ,
      of ex_sigs None] tabs differ ex_names
  show ?thesis by (auto simp: ex_table_def getFunctionArguments_def dict_values_def)
qed

text \<open>
  C4, as stated, fails: two schemes that declare \<open>buf\<close> as \<open>character\<close> with the kinds
  \<open>len=5\<close> and \<open>len=10\<close> are accepted, and the slot takes the first length.
\<close>

theorem C4_kind_mismatch_is_accepted:
  "getAttr (ex_char_arg ''len=5'') ''kind'' \<noteq> getAttr (ex_char_arg ''len=10'') ''kind''
   \<and> phase_outputs (generateSubroutineCall ex_kind_meta_data ex_sigs ex_suite ''_init'' None)
       = Inr [MemRefType (IntegerType 8) [5], MemRefType (IntegerType 32) []]"
  by (simp add: phase_outputs_def gen_defs ex_defs eval_defs py_index_def py_int_def is_int_space_def
      is_digit_def)

lemma groups_typed:
  assumes "list_all2 (\<lambda>s g. \<exists>t. map_of tables s = Some t
          \<and> generateSchemeSubroutineCallOps (s @ post) t data = Inr g) names groups"
    and "map_of data ''errflg'' = Some slot"
  shows "list_all (\<lambda>g. \<exists>n ins ots otr. g = guarded_group slot (CallOp n ins ots) otr
            \<and> list_all2 (\<lambda>t v. result_type v = Inr t) ots otr) groups"
  using assms(1)
proof (induction rule: list_all2_induct)
  case Nil
  then show ?case by simp
next
  case (Cons s names g groups)
  from Cons(1) obtain t where "generateSchemeSubroutineCallOps (s @ post) t data = Inr g" by blast
  from generateSchemeSubroutineCallOps_shape[OF this] assms(2) obtain ins ots otr where
    ca: "call_args (getFunctionArguments t) data ([], [], []) = Inr (ins, ots, otr)"
    and g: "g = guarded_group slot (CallOp (s @ post) ins ots) otr" by auto
  have "list_all2 (\<lambda>t v. result_type v = Inr t) ots otr" using call_args_types[OF ca] by simp
  with g Cons(3) show ?case by auto
qed

lemma groups_by_scheme:
  assumes "list_all2 (\<lambda>s g. \<exists>t. map_of tables s = Some t
          \<and> generateSchemeSubroutineCallOps (s @ post) t data = Inr g) names groups"
    and "map_of data ''errflg'' = Some slot"
  shows "list_all2 (\<lambda>s g. \<exists>tab ins ots otr.
            map_of tables s = Some tab
          \<and> call_args (getFunctionArguments tab) data ([], [], []) = Inr (ins, ots, otr)
          \<and> g = guarded_group slot (CallOp (s @ post) ins ots) otr
          \<and> list_all2 (\<lambda>t v. result_type v = Inr t) ots otr) names groups"
  using assms(1)
proof (induction rule: list_all2_induct)
  case Nil
  then show ?case by simp
next
  case (Cons s names g groups)
  from Cons(1) obtain t where t: "map_of tables s = Some t"
    and run: "generateSchemeSubroutineCallOps (s @ post) t data = Inr g" by blast
  from generateSchemeSubroutineCallOps_shape[OF run] assms(2) obtain ins ots otr where
    ca: "call_args (getFunctionArguments t) data ([], [], []) = Inr (ins, ots, otr)"
    and g: "g = guarded_group slot (CallOp (s @ post) ins ots) otr" by auto
  have "list_all2 (\<lambda>t v. result_type v = Inr t) ots otr" using call_args_types[OF ca] by simp
  with t ca g Cons(3) show ?case by auto
qed

lemma ex_tables:
  "collect_arg_tables ex_meta_data [''A'', ''B''] ''_init'' []
     = Inr [(''A'', ex_A_init), (''B'', ex_B_init)]"
  by (simp add: gen_defs ex_defs eval_defs)

lemma ex_slots:
  "generateVariableCreation [''A'', ''B''] [(''A'', ex_A_init), (''B'', ex_B_init)]
     = Inr [(''x'', AllocaOp ''x'' Float64Type []), (''errflg'', ex_errflg_slot),
            (''y'', AllocaOp ''y'' Float64Type [])]"
  by (simp add: generateVariableCreation_def alloc_for_def ex_errflg_slot_def ex_defs eval_defs)

lemma ex_call_args:
  "call_args (getFunctionArguments ex_A_init)
     [(''x'', AllocaOp ''x'' Float64Type []), (''errflg'', ex_errflg_slot),
      (''y'', AllocaOp ''y'' Float64Type [])] ([], [], [])
     = Inr ([result (AllocaOp ''x'' Float64Type [])], [MemRefType (IntegerType 32) []],
            [ex_errflg_slot])"
  "call_args (getFunctionArguments ex_B_init)
     [(''x'', AllocaOp ''x'' Float64Type []), (''errflg'', ex_errflg_slot),
      (''y'', AllocaOp ''y'' Float64Type [])] ([], [], [])
     = Inr ([result (AllocaOp ''x'' Float64Type [])],
            [MemRefType (IntegerType 32) [], MemRefType Float64Type []],
            [ex_errflg_slot, AllocaOp ''y'' Float64Type []])"
  by (simp_all add: ex_errflg_slot_def ex_defs eval_defs)

text \<open>
  C6. The body of a generated subroutine is the allocations, immediately followed by the
  constant zero and its store into the \<open>errflg\<close> slot, then one group per scheme of the
  suite in the order of the schemes, then the return of all slots. The group of a scheme is
  the zero constant, the comparison of the loaded \<open>errflg\<close> slot with it, the load, and a
  conditional on that comparison without an alternate branch; the branch of the conditional
  is the call of the subroutine of that scheme, with the operands and result types read
  from the table of the scheme, followed by one copy per result into the slot of that
  result's type and closed by the terminator of the region.
\<close>

theorem C6_errflg_init_and_guards:
  assumes "generateSubroutineCall md sigs suite post gen = Inr (f, d)"
    and "getSchemeNames suite = Inr names"
    and "collect_arg_tables md names post [] = Inr tables"
  shows "\<exists>fname outs data t sh groups.
       f = FuncOp fname [] outs
             (Some (dict_values data
                    @ [const_zero, StoreOp (result const_zero) (result (AllocaOp ''errflg'' t sh)) []]
                    @ concat groups @ [ReturnOp (map result (dict_values data))]))
     \<and> generateVariableCreation names tables = Inr data
     \<and> list_all is_alloca (dict_values data)
     \<and> map_of data ''errflg'' = Some (AllocaOp ''errflg'' t sh)
     \<and> list_all2 (\<lambda>s g. \<exists>tab ins ots otr.
            map_of tables s = Some tab
          \<and> call_args (getFunctionArguments tab) data ([], [], []) = Inr (ins, ots, otr)
          \<and> g = guarded_group (AllocaOp ''errflg'' t sh) (CallOp (s @ post) ins ots) otr
          \<and> list_all2 (\<lambda>t v. result_type v = Inr t) ots otr) names groups"
proof -
  from generateSubroutineCall_structure[OF assms(1)] assms(2,3)
  obtain data slot groups fname outs where
    v: "generateVariableCreation names tables = Inr data"
    and s: "map_of data ''errflg'' = Some slot"
    and g: "list_all2 (\<lambda>s g. \<exists>t. map_of tables s = Some t
          \<and> generateSchemeSubroutineCallOps (s @ post) t data = Inr g) names groups"
    and f: "f = FuncOp fname [] outs
          (Some (dict_values data @ [const_zero, StoreOp (result const_zero) (result slot) []]
                 @ concat groups @ [ReturnOp (map result (dict_values data))]))"
    by auto
  have allocs: "list_all is_alloca (dict_values data)" by (rule slots_are_allocas[OF v])
  from errflg_slot_shape[OF v s] obtain t sh where slot: "slot = AllocaOp ''errflg'' t sh" by blast
  from groups_by_scheme[OF g s] allocs s v f show ?thesis unfolding slot by blast
qed

theorem C6_errflg_init_and_guards_witness:
  "\<exists>f d fname outs.
       generateSubroutineCall ex_meta_data ex_sigs ex_suite ''_init'' (Some ''_initialize'') = Inr (f, d)
     \<and> f = FuncOp fname [] outs
             (Some ([AllocaOp ''x'' Float64Type [], ex_errflg_slot, AllocaOp ''y'' Float64Type []]
                    @ [const_zero, StoreOp (result const_zero) (result ex_errflg_slot) []]
                    @ guarded_group ex_errflg_slot
                        (CallOp ''A_init'' [result (AllocaOp ''x'' Float64Type [])]
                           [MemRefType (IntegerType 32) []])
                        [ex_errflg_slot]
                    @ guarded_group ex_errflg_slot
                        (CallOp ''B_init'' [result (AllocaOp ''x'' Float64Type [])]
                           [MemRefType (IntegerType 32) [], MemRefType Float64Type []])
                        [ex_errflg_slot, AllocaOp ''y'' Float64Type []]
                    @ [ReturnOp [result (AllocaOp ''x'' Float64Type []), result ex_errflg_slot,
                                 result (AllocaOp ''y'' Float64Type [])]]))"
proof -
  have "\<exists>f d. generateSubroutineCall ex_meta_data ex_sigs ex_suite ''_init'' (Some ''_initialize'')
           = Inr (f, d)"
    by (simp add: gen_defs ex_defs eval_defs)
  then obtain f d where
    run: "generateSubroutineCall ex_meta_data ex_sigs ex_suite ''_init'' (Some ''_initialize'')
           = Inr (f, d)" by blast
  from C6_errflg_init_and_guards[OF run ex_names ex_tables]
  obtain fname outs data t sh groups where
    f: "f = FuncOp fname [] outs
             (Some (dict_values data
                    @ [const_zero, StoreOp (result const_zero) (result (AllocaOp ''errflg'' t sh)) []]
                    @ concat groups @ [ReturnOp (map result (dict_values data))]))"
    and v: "generateVariableCreation [''A'', ''B''] [(''A'', ex_A_init), (''B'', ex_B_init)] = Inr data"
    and s: "map_of data ''errflg'' = Some (AllocaOp ''errflg'' t sh)"
    and g: "list_all2 (\<lambda>s g. \<exists>tab ins ots otr.
            map_of [(''A'', ex_A_init), (''B'', ex_B_init)] s = Some tab
          \<and> call_args (getFunctionArguments tab) data ([], [], []) = Inr (ins, ots, otr)
          \<and> g = guarded_group (AllocaOp ''errflg'' t sh) (CallOp (s @ ''_init'') ins ots) otr
          \<and> list_all2 (\<lambda>t v. result_type v = Inr t) ots otr) [''A'', ''B''] groups"
    by blast
  from v have data: "data = [(''x'', AllocaOp ''x'' Float64Type []), (''errflg'', ex_errflg_slot),
            (''y'', AllocaOp ''y'' Float64Type [])]"
    unfolding ex_slots by simp
  from s have slot: "AllocaOp ''errflg'' t sh = ex_errflg_slot" unfolding data by simp
  from g have groups: "groups =
      [guarded_group ex_errflg_slot
         (CallOp ''A_init'' [result (AllocaOp ''x'' Float64Type [])] [MemRefType (IntegerType 32) []])
         [ex_errflg_slot],
       guarded_group ex_errflg_slot
         (CallOp ''B_init'' [result (AllocaOp ''x'' Float64Type [])]
            [MemRefType (IntegerType 32) [], MemRefType Float64Type []])
         [ex_errflg_slot, AllocaOp ''y'' Float64Type []]]"
    unfolding slot data by (auto simp: list_all2_Cons1 ex_call_args)
  have "f = FuncOp fname [] outs
             (Some ([AllocaOp ''x'' Float64Type [], ex_errflg_slot, AllocaOp ''y'' Float64Type []]
                    @ [const_zero, StoreOp (result const_zero) (result ex_errflg_slot) []]
                    @ guarded_group ex_errflg_slot
                        (CallOp ''A_init'' [result (AllocaOp ''x'' Float64Type [])]
                           [MemRefType (IntegerType 32) []])
                        [ex_errflg_slot]
                    @ guarded_group ex_errflg_slot
                        (CallOp ''B_init'' [result (AllocaOp ''x'' Float64Type [])]
                           [MemRefType (IntegerType 32) [], MemRefType Float64Type []])
                        [ex_errflg_slot, AllocaOp ''y'' Float64Type []]
                    @ [ReturnOp [result (AllocaOp ''x'' Float64Type []), result ex_errflg_slot,
                                 result (AllocaOp ''y'' Float64Type [])]]))"
    using f unfolding groups data slot by (simp add: dict_values_def)
  then show ?thesis using run by blast
qed

lemma returned_allocs: "list_all is_alloca xs \<Longrightarrow> concat (map returned_of xs) = []"
proof (induction xs)
  case Nil
  then show ?case by simp
next
  case (Cons x xs)
  then show ?case by (cases x) simp_all
qed

lemma returned_groups:
  "list_all (\<lambda>g. \<exists>n ins ots otr. g = guarded_group slot (CallOp n ins ots) otr \<and> P ots otr) groups
     \<Longrightarrow> concat (map returned_of (concat groups)) = []"
  by (induction groups) (auto simp: guarded_group_def const_zero_def)

lemma slot_labels:
  "\<forall>(k, p) \<in> set data. \<exists>t sh. p = AllocaOp k t sh \<Longrightarrow>
     concat (map slot_label (map result (dict_values data))) = map fst data"
  by (induction data) (auto simp: dict_values_def result_def)

text \<open>
  C9. Two runs on the same suite descriptor, metadata and signatures give the same result;
  the returned slots of the generated subroutine are the argument names of the schemes in
  the order in which they are first seen, and the nesting is the one of C1.
\<close>

theorem C9_generation_is_deterministic:
  assumes "generateSubroutineCall md sigs suite post gen = r1"
    and "generateSubroutineCall md sigs suite post gen = r2"
  shows "r1 = r2
       \<and> (\<forall>f d names tables. r1 = Inr (f, d) \<and> getSchemeNames suite = Inr names
              \<and> collect_arg_tables md names post [] = Inr tables
            \<longrightarrow> returned_slots f = first_seen {} (flat_arg_names tables names)
              \<and> if_depth f = (if names = [] then 0 else 1))"
proof -
  have "returned_slots f = first_seen {} (flat_arg_names tables names)
      \<and> if_depth f = (if names = [] then 0 else 1)"
    if run: "r1 = Inr (f, d)" and n: "getSchemeNames suite = Inr names"
      and t: "collect_arg_tables md names post [] = Inr tables" for f d names tables
  proof -
    have gen: "generateSubroutineCall md sigs suite post gen = Inr (f, d)"
      using assms(1) run by simp
    from generateSubroutineCall_structure[OF gen] n t
    obtain data slot groups fname outs where
      v: "generateVariableCreation names tables = Inr data"
      and s: "map_of data ''errflg'' = Some slot"
      and g: "list_all2 (\<lambda>s g. \<exists>t. map_of tables s = Some t
          \<and> generateSchemeSubroutineCallOps (s @ post) t data = Inr g) names groups"
      and f: "f = FuncOp fname [] outs
          (Some (dict_values data @ [const_zero, StoreOp (result const_zero) (result slot) []]
                 @ concat groups @ [ReturnOp (map result (dict_values data))]))"
      by auto
    have allocs: "list_all is_alloca (dict_values data)" by (rule slots_are_allocas[OF v])
    have "returned_slots f = concat (map slot_label (map result (dict_values data)))"
      unfolding f returned_slots_def
      by (simp add: returned_allocs[OF allocs] returned_groups[OF groups_typed[OF g s]]
          const_zero_def)
    also have "\<dots> = map fst data"
      by (rule slot_labels[OF generateVariableCreation_slots(2)[OF v]])
    also have "\<dots> = first_seen {} (flat_arg_names tables names)"
      by (rule generateVariableCreation_slots(1)[OF v])
    finally show ?thesis using generated_depth_and_guards[OF gen n] by simp
  qed
  with assms show ?thesis by blast
qed

theorem C9_generation_is_deterministic_witness:
  "\<exists>f d. generateSubroutineCall ex_meta_data ex_sigs ex_suite ''_init'' (Some ''_initialize'')
            = Inr (f, d)
        \<and> returned_slots f = [''x'', ''errflg'', ''y''] \<and> if_depth f = 1"
proof -
  have "\<exists>f d. generateSubroutineCall ex_meta_data ex_sigs ex_suite ''_init'' (Some ''_initialize'')
           = Inr (f, d)"
    by (simp add: gen_defs ex_defs eval_defs)
  then obtain f d where
    run: "generateSubroutineCall ex_meta_data ex_sigs ex_suite ''_init'' (Some ''_initialize'')
           = Inr (f, d)" by blast
  have tabs: "collect_arg_tables ex_meta_data [''A'', ''B''] ''_init'' []
                = Inr [(''A'', ex_A_init), (''B'', ex_B_init)]"
    by (simp add: getArgumentTable_def getArgTable_def ex_meta_data_def ex_props_def eval_defs)
  have order: "first_seen {} (flat_arg_names [(''A'', ex_A_init), (''B'', ex_B_init)] [''A'', ''B''])
                = [''x'', ''errflg'', ''y'']"
    by (simp add: ex_defs eval_defs)
  from C9_generation_is_deterministic[OF run run] run ex_names tabs order
  show ?thesis by fastforce
qed

text \<open>
  C2 (the code departs from the claim). For a table whose only argument is \<open>errflg\<close> with
  intent \<open>inout\<close>, the call that \<open>generateSchemeSubroutineCallOps\<close> builds has the slot among
  its operands and has no result type and no copy-back, although the signature that
  \<open>generate_function_signature\<close> declares for the same table lists the argument among the
  inputs and among the outputs. For the same argument without an intent the signature is
  the same, and building the call fails on the missing attribute.
\<close>

theorem C2_inout_is_operand_only:
  "generateSchemeSubroutineCallOps ''T_init'' ex_inout_table [(''errflg'', ex_errflg_slot)]
     = Inr [ConstantOp (IntegerAttr 0 (IntegerType 32)),
            CmpiOp 0 (result (LoadOp (result ex_errflg_slot) []))
                     (result (ConstantOp (IntegerAttr 0 (IntegerType 32)))),
            LoadOp (result ex_errflg_slot) [],
            IfOp (errflg_test ex_errflg_slot) []
                 [CallOp ''T_init'' [result ex_errflg_slot] [], YieldOp []] None]
   \<and> generate_function_signature ex_inout_table
     = Inr (FuncOp ''T_init'' [MemRefType (IntegerType 32) []] [MemRefType (IntegerType 32) []] None)
   \<and> generateSchemeSubroutineCallOps ''T_init'' ex_nointent_table [(''errflg'', ex_errflg_slot)]
     = Inl AssertionError
   \<and> generate_function_signature ex_nointent_table
     = Inr (FuncOp ''T_init'' [MemRefType (IntegerType 32) []] [MemRefType (IntegerType 32) []] None)"
  by (simp add: generateSchemeSubroutineCallOps_def generate_function_signature_def
      signature_step_def convert_def errflg_test_def ex_table_defs eval_defs)

section \<open>Properties of the backend text emitter\<close>

lemmas printer_defs = print_def print_or_promote_to_inline_expr_def print_expr_owner_def
  get_variable_name_for_def print_call_def descend_def new_context_def register_binops_def
  empty_store_def INDENT_def newline_def str_of_int_def digits_of.simps digit_char_eval fresh_name.simps
  CMPI_COMPARISON_OPERATIONS_def py_index_def str_of_opt_def

lemma print_expr_rejects: "\<not> is_expr_op p \<Longrightarrow> print_expr ir self h p = Inl AssertionError"
  by (cases p) simp_all

lemma print_expr_owner_accepts:
  "print_expr_owner ir self h v = Inr h' \<Longrightarrow> \<exists>p i. v = OpResult p i \<and> is_expr_op p"
proof (cases v)
  case (OpResult p i)
  assume "print_expr_owner ir self h v = Inr h'"
  then have "print_expr ir self h p = Inr h'" using OpResult by (simp add: print_expr_owner_def)
  then have "is_expr_op p" using print_expr_rejects[of p ir self h] by auto
  then show ?thesis using OpResult by blast
next
  case (BlockArgument i)
  assume "print_expr_owner ir self h v = Inr h'"
  then show ?thesis using BlockArgument by (simp add: print_expr_owner_def)
qed

lemma print_expr_owner_rejects:
  "\<not> is_expr_op p \<Longrightarrow> print_expr_owner ir self h (OpResult p i) = Inl AssertionError"
  by (simp add: print_expr_owner_def print_expr_rejects)

lemma print_call_args_accepts:
  "print_call_args ir self h idx args = Inr h' \<Longrightarrow>
     \<forall>v \<in> set args. \<exists>p i. v = OpResult p i \<and> is_expr_op p"
proof (induction args arbitrary: h idx)
  case Nil
  then show ?case by simp
next
  case (Cons a args)
  from Cons.prems obtain h1 where
    a: "print_expr_owner ir self (if idx > 0 then print self h '', '' [] False else h) a = Inr h1"
    and rest: "print_call_args ir self h1 (Suc idx) args = Inr h'"
    by (auto simp: err_bind_Inr_iff)
  from print_expr_owner_accepts[OF a] Cons.IH[OF rest] show ?case by simp
qed

text \<open>
  C10. \<^verbatim>\<open>print_expr\<close> fails its assertion on every operation that is not a constant, a
  load or an integer comparison; a load is rendered as the name of its buffer, whatever its
  indices. So an assignment or a conditional whose operand has another producer fails the
  same way, and an assignment, a conditional or a call is only printed when the producers
  of its operands are of these three kinds.
\<close>

theorem C10_expression_operands:
  "(\<not> is_expr_op p \<longrightarrow> print_expr ir self h p = Inl AssertionError)
 \<and> print_expr ir self h (LoadOp arr idxs)
     = (case get_variable_name_for ir self h arr None of (n, h1) \<Rightarrow> Inr (print self h1 n [] False))
 \<and> (\<not> is_expr_op p \<longrightarrow> print_op ir self h (StoreOp (OpResult p i) arr idxs) = Inl AssertionError)
 \<and> (\<not> is_expr_op p \<longrightarrow> print_op ir self h (IfOp (OpResult p i) ts tb fb) = Inl AssertionError)
 \<and> (print_op ir self h (StoreOp v arr idxs) = Inr h' \<longrightarrow> (\<exists>q j. v = OpResult q j \<and> is_expr_op q))
 \<and> (print_op ir self h (IfOp v ts tb fb) = Inr h' \<longrightarrow> (\<exists>q j. v = OpResult q j \<and> is_expr_op q))
 \<and> (print_op ir self h (CallOp callee args res) = Inr h'
       \<longrightarrow> (\<forall>a \<in> set args. \<exists>q j. a = OpResult q j \<and> is_expr_op q))"
proof (intro conjI impI)
  assume "\<not> is_expr_op p"
  then show "print_expr ir self h p = Inl AssertionError" by (rule print_expr_rejects)
next
  show "print_expr ir self h (LoadOp arr idxs)
     = (case get_variable_name_for ir self h arr None of (n, h1) \<Rightarrow> Inr (print self h1 n [] False))"
    by simp
next
  assume "\<not> is_expr_op p"
  then show "print_op ir self h (StoreOp (OpResult p i) arr idxs) = Inl AssertionError"
    by (simp add: print_expr_owner_rejects err_bind_def Let_def split: prod.splits)
next
  assume "\<not> is_expr_op p"
  then show "print_op ir self h (IfOp (OpResult p i) ts tb fb) = Inl AssertionError"
    by (simp add: print_expr_owner_rejects err_bind_def)
next
  assume "print_op ir self h (StoreOp v arr idxs) = Inr h'"
  then show "\<exists>q j. v = OpResult q j \<and> is_expr_op q"
    by (auto simp: err_bind_Inr_iff Let_def split: prod.splits dest: print_expr_owner_accepts)
next
  assume "print_op ir self h (IfOp v ts tb fb) = Inr h'"
  then show "\<exists>q j. v = OpResult q j \<and> is_expr_op q"
    by (auto simp: err_bind_Inr_iff dest: print_expr_owner_accepts)
next
  assume "print_op ir self h (CallOp callee args res) = Inr h'"
  then show "\<forall>a \<in> set args. \<exists>q j. a = OpResult q j \<and> is_expr_op q"
    by (auto simp: print_call_def err_bind_Inr_iff dest!: print_call_args_accepts)
qed

theorem C10_expression_operands_witness:
  "\<not> is_expr_op ex_errflg_slot
 \<and> print_expr ex_ir 0 ex_store ex_errflg_slot = Inl AssertionError
 \<and> print_op ex_ir 0 ex_store (StoreOp (OpResult ex_errflg_slot 0) (result ex_errflg_slot) [])
     = Inl AssertionError
 \<and> print_op ex_ir 0 ex_store (IfOp (OpResult ex_errflg_slot 0) [] [] None) = Inl AssertionError
 \<and> (\<exists>h'. print_op ex_ir 0 ex_store (StoreOp (result ex_zero) (result ex_errflg_slot) []) = Inr h')
 \<and> is_expr_op ex_zero"
proof -
  have n: "\<not> is_expr_op ex_errflg_slot" by (simp add: ex_errflg_slot_def)
  have "\<exists>h'. print_op ex_ir 0 ex_store (StoreOp (result ex_zero) (result ex_errflg_slot) []) = Inr h'"
    by (simp add: printer_defs ex_ir_def ex_store_def ex_zero_def ex_errflg_slot_def
      result_def eval_defs)
  then obtain h' where
    s: "print_op ex_ir 0 ex_store (StoreOp (result ex_zero) (result ex_errflg_slot) []) = Inr h'"
    by blast
  from C10_expression_operands[of ex_errflg_slot ex_ir 0 ex_store "result ex_errflg_slot" "[]" 0
      "[]" "[]" None "result ex_zero" h'] n s
  show ?thesis by (auto simp: ex_zero_def result_def)
qed






lemma fresh_name_props:
  "fresh_name pfx taken c = (n, c') \<Longrightarrow>
     n \<notin> set taken
   \<and> (\<exists>k. c \<le> k \<and> n = pfx @ str_of_int k \<and> c' = k + 1
          \<and> (\<forall>j. c \<le> j \<and> j < k \<longrightarrow> pfx @ str_of_int j \<in> set taken))"
proof (induction pfx taken c rule: fresh_name.induct)
  case (1 pfx taken c)
  show ?case
  proof (cases "pfx @ str_of_int c \<in> set taken")
    case True
    then have "fresh_name pfx taken (c + 1) = (n, c')"
      using "1.prems" by (subst (asm) fresh_name.simps) simp
    from "1.IH"[OF True this] obtain k where
      k: "n \<notin> set taken" "c + 1 \<le> k" "n = pfx @ str_of_int k" "c' = k + 1"
         "\<forall>j. c + 1 \<le> j \<and> j < k \<longrightarrow> pfx @ str_of_int j \<in> set taken"
      by blast
    have "\<forall>j. c \<le> j \<and> j < k \<longrightarrow> pfx @ str_of_int j \<in> set taken"
    proof (intro allI impI)
      fix j assume j: "c \<le> j \<and> j < k"
      show "pfx @ str_of_int j \<in> set taken"
      proof (cases "j = c")
        case True
        then show ?thesis using \<open>pfx @ str_of_int c \<in> set taken\<close> by simp
      next
        case False
        then have "c + 1 \<le> j" using j by simp
        then show ?thesis using k(5) j by blast
      qed
    qed
    moreover have "c \<le> k" using k(2) by simp
    ultimately show ?thesis using k by blast
  next
    case False
    then have "n = pfx @ str_of_int c" "c' = c + 1"
      using "1.prems" by (subst (asm) fresh_name.simps, simp)+
    then show ?thesis using False by auto
  qed
qed


lemma naming_new:
  assumes "map_of (bindings h self) val = None"
    and "get_variable_name_for ir self h val None = (n, h')"
  shows "n \<notin> set (dict_values (bindings h self))"
    and "bindings h' self = bindings h self @ [(val, n)]"
    and "name_hint ir val = Some x \<Longrightarrow> (n = x \<longleftrightarrow> x \<notin> set (dict_values (bindings h self)))"
    and "name_hint ir val \<noteq> Some n \<Longrightarrow>
           \<exists>k. counter (ctxs h self) \<le> k \<and> n = default_prefix ir val @ str_of_int k
              \<and> counter (ctxs h' self) = k + 1
              \<and> (\<forall>j. counter (ctxs h self) \<le> j \<and> j < k
                     \<longrightarrow> default_prefix ir val @ str_of_int j \<in> set (dict_values (bindings h self)))"
    and "name_hint ir val = Some n \<Longrightarrow> counter (ctxs h' self) = counter (ctxs h self)"
proof -
  let ?c = "ctxs h self"
  let ?vars = "bindings h self"
  let ?taken = "dict_values ?vars"
  let ?syn = "fresh_name (default_prefix ir val) ?taken (counter ?c)"
  define chosen where "chosen = (case name_hint ir val of None \<Rightarrow> ?syn
                 | Some x \<Rightarrow> if x \<notin> set ?taken then (x, counter ?c) else ?syn)"
  have eq: "get_variable_name_for ir self h val None
          = (fst chosen,
             h\<lparr>ctxs := (ctxs h)(self := ?c\<lparr>counter := snd chosen\<rparr>),
               var_dicts := (var_dicts h)(variables ?c := AList.update val (fst chosen) ?vars)\<rparr>)"
    using assms(1)
    unfolding get_variable_name_for_def bindings_def default_prefix_def Let_def chosen_def
    by simp
  have n: "n = fst chosen" using eq assms(2) by simp
  have h': "h' = h\<lparr>ctxs := (ctxs h)(self := ?c\<lparr>counter := snd chosen\<rparr>),
               var_dicts := (var_dicts h)(variables ?c := AList.update val (fst chosen) ?vars)\<rparr>"
    using eq assms(2) by simp
  obtain sn sc where syn: "?syn = (sn, sc)" by (cases ?syn)
  note fp = fresh_name_props[OF syn]
  have fresh: "val \<notin> fst ` set ?vars" using assms(1) by (simp add: map_of_eq_None_iff)
  show nt: "n \<notin> set ?taken"
    using n fp syn unfolding chosen_def by (auto split: option.splits if_splits)
  show "bindings h' self = ?vars @ [(val, n)]"
    unfolding h' n using update_fresh[OF fresh] by (simp add: bindings_def)
  show "name_hint ir val = Some x \<Longrightarrow> (n = x \<longleftrightarrow> x \<notin> set ?taken)"
    using n fp syn unfolding chosen_def by (auto split: if_splits)
  show "name_hint ir val = Some n \<Longrightarrow> counter (ctxs h' self) = counter ?c"
  proof -
    assume "name_hint ir val = Some n"
    then have "chosen = (n, counter ?c)" using nt unfolding chosen_def by simp
    then show ?thesis unfolding h' by simp
  qed
  show "name_hint ir val \<noteq> Some n \<Longrightarrow>
           \<exists>k. counter ?c \<le> k \<and> n = default_prefix ir val @ str_of_int k
              \<and> counter (ctxs h' self) = k + 1
              \<and> (\<forall>j. counter ?c \<le> j \<and> j < k
                     \<longrightarrow> default_prefix ir val @ str_of_int j \<in> set ?taken)"
  proof -
    assume ne: "name_hint ir val \<noteq> Some n"
    have "chosen = ?syn"
      using n ne unfolding chosen_def by (auto split: option.splits if_splits)
    then have "n = sn" "snd chosen = sc" using n syn by simp_all
    moreover have "counter (ctxs h' self) = snd chosen" unfolding h' by simp
    ultimately show ?thesis using fp by auto
  qed
qed

















lemma frame_refl: "frame c h h"
  by (simp add: frame_def)

lemma frame_trans:
  assumes "frame c h h1" "frame c h1 h2"
  shows "frame c h h2"
proof -
  have n: "next_addr h \<le> next_addr h1" "next_addr h1 \<le> next_addr h2"
    using assms by (simp_all add: frame_def)
  have v: "variables (ctxs h1 c) = variables (ctxs h c)" using assms(1) by (simp add: frame_def)
  have c1: "ctxs h1 a = ctxs h a" if "a < next_addr h" "a \<noteq> c" for a
    using assms(1) that by (simp add: frame_def)
  have c2: "ctxs h2 a = ctxs h1 a" if "a < next_addr h1" "a \<noteq> c" for a
    using assms(2) that by (simp add: frame_def)
  have d1: "var_dicts h1 a = var_dicts h a" if "a < next_addr h" "a \<noteq> variables (ctxs h c)" for a
    using assms(1) that by (simp add: frame_def)
  have d2: "var_dicts h2 a = var_dicts h1 a" if "a < next_addr h1" "a \<noteq> variables (ctxs h1 c)" for a
    using assms(2) that by (simp add: frame_def)
  have cc: "ctxs h2 a = ctxs h a" if "a < next_addr h" "a \<noteq> c" for a
    using c1[OF that] c2[of a] that n by simp
  have dd: "var_dicts h2 a = var_dicts h a" if "a < next_addr h" "a \<noteq> variables (ctxs h c)" for a
    using d1[OF that] d2[of a] that n v by simp
  have rest: "binop_dicts h2 = binop_dicts h \<and> cmp_dicts h2 = cmp_dicts h
    \<and> variables (ctxs h2 c) = variables (ctxs h c)
    \<and> prefix (ctxs h2 c) = prefix (ctxs h c)
    \<and> binops (ctxs h2 c) = binops (ctxs h c)
    \<and> cmp_ops (ctxs h2 c) = cmp_ops (ctxs h c)"
    using assms by (simp add: frame_def)
  show ?thesis unfolding frame_def using n cc dd rest by auto
qed

lemma wf_frame: "wf_ctx c h \<Longrightarrow> frame c h h' \<Longrightarrow> wf_ctx c h'"
  by (auto simp: wf_ctx_def frame_def)

lemma frame_print: "frame c h (print c' h t e u)"
  by (simp add: frame_def print_def)

lemma frame_print_after: "frame c h h1 \<Longrightarrow> frame c h (print c' h1 t e u)"
  using frame_trans frame_print by blast

lemma frame_naming: "get_variable_name_for ir c h v hint = (n, h') \<Longrightarrow> frame c h h'"
  unfolding get_variable_name_for_def Let_def
  by (cases "map_of (var_dicts h (variables (ctxs h c))) v") (auto simp: frame_def)

lemma frame_names_for: "names_for ir c h vs = (ns, h') \<Longrightarrow> frame c h h'"
proof (induction vs arbitrary: h ns h')
  case Nil
  then show ?case by (simp add: frame_refl)
next
  case (Cons v vs)
  obtain n h1 where step: "get_variable_name_for ir c h v None = (n, h1)"
    by (cases "get_variable_name_for ir c h v None")
  obtain ms h2 where rest: "names_for ir c h1 vs = (ms, h2)"
    by (cases "names_for ir c h1 vs")
  from Cons.prems step rest have "h' = h2" by simp
  with frame_naming[OF step] Cons.IH[OF rest] show ?case using frame_trans by blast
qed

lemma frame_print_expr: "print_expr ir c h p = Inr h' \<Longrightarrow> frame c h h'"
proof (induction ir c h p arbitrary: h' rule: print_expr.induct)
  case (1 ir self h v)
  then show ?case
    by (auto simp: err_bind_Inr_iff print_or_promote_to_inline_expr_def frame_print)
next
  case (2 ir self h arr idxs)
  obtain n h1 where step: "get_variable_name_for ir self h arr None = (n, h1)"
    by (cases "get_variable_name_for ir self h arr None")
  with "2.prems" have "h' = print self h1 n [] False" by simp
  with frame_naming[OF step] show ?case using frame_print_after by blast
next
  case (3 ir self h v l r)
  from "3.prems" obtain sp where sp: "py_index CMPI_COMPARISON_OPERATIONS v = Inr sp"
    and s1: "err_bind (case l of OpResult lo i \<Rightarrow> print_expr ir self h lo
                       | BlockArgument i \<Rightarrow> Inl AssertionError) (\<lambda>h1.
     err_bind (dict_get (cmp_dicts h1 (cmp_ops (ctxs h1 self))) ''arith.cmpi'') (\<lambda>table.
     err_bind (dict_get table sp) (\<lambda>sym.
     (case r of OpResult ro i \<Rightarrow>
                  print_expr ir self (print self h1 ('' '' @ str_of_opt sym @ '' '') [] False) ro
              | BlockArgument i \<Rightarrow> Inl AssertionError)))) = Inr h'"
    by (auto simp: err_bind_Inr_iff)
  from s1 obtain h1 where pl': "(case l of OpResult lo i \<Rightarrow> print_expr ir self h lo
          | BlockArgument i \<Rightarrow> Inl AssertionError) = Inr h1"
    and s2: "err_bind (dict_get (cmp_dicts h1 (cmp_ops (ctxs h1 self))) ''arith.cmpi'') (\<lambda>table.
     err_bind (dict_get table sp) (\<lambda>sym.
     (case r of OpResult ro i \<Rightarrow>
                  print_expr ir self (print self h1 ('' '' @ str_of_opt sym @ '' '') [] False) ro
              | BlockArgument i \<Rightarrow> Inl AssertionError))) = Inr h'"
    unfolding err_bind_Inr_iff by blast
  from s2 obtain tab where
    tab: "dict_get (cmp_dicts h1 (cmp_ops (ctxs h1 self))) ''arith.cmpi'' = Inr tab"
    and s3: "err_bind (dict_get tab sp) (\<lambda>sym.
     (case r of OpResult ro i \<Rightarrow>
                  print_expr ir self (print self h1 ('' '' @ str_of_opt sym @ '' '') [] False) ro
              | BlockArgument i \<Rightarrow> Inl AssertionError)) = Inr h'"
    unfolding err_bind_Inr_iff by blast
  from s3 obtain sym where sym: "dict_get tab sp = Inr sym"
    and s4: "(case r of OpResult ro i \<Rightarrow>
                  print_expr ir self (print self h1 ('' '' @ str_of_opt sym @ '' '') [] False) ro
              | BlockArgument i \<Rightarrow> Inl AssertionError) = Inr h'"
    unfolding err_bind_Inr_iff by blast
  from pl' obtain lo li where l: "l = OpResult lo li" and pl: "print_expr ir self h lo = Inr h1"
    by (cases l) simp_all
  from s4 obtain ro ri where r: "r = OpResult ro ri"
    and pr: "print_expr ir self (print self h1 ('' '' @ str_of_opt sym @ '' '') [] False) ro = Inr h'"
    by (cases r) simp_all
  have f1: "frame self h h1" by (rule "3.IH"(1)[OF sp l pl])
  have f2: "frame self (print self h1 ('' '' @ str_of_opt sym @ '' '') [] False) h'"
    by (rule "3.IH"(2)[OF sp pl' tab sym r pr])
  from f1 f2 show ?case using frame_print_after frame_trans by blast
qed simp_all

lemma frame_print_expr_owner: "print_expr_owner ir c h v = Inr h' \<Longrightarrow> frame c h h'"
  by (cases v) (auto simp: print_expr_owner_def frame_print_expr)

lemma frame_print_call_args: "print_call_args ir c h idx args = Inr h' \<Longrightarrow> frame c h h'"
proof (induction args arbitrary: h idx)
  case Nil
  then show ?case by (simp add: frame_refl)
next
  case (Cons a args)
  from Cons.prems obtain h1 where
    a: "print_expr_owner ir c (if idx > 0 then print c h '', '' [] False else h) a = Inr h1"
    and rest: "print_call_args ir c h1 (Suc idx) args = Inr h'"
    by (auto simp: err_bind_Inr_iff)
  have "frame c h (if idx > 0 then print c h '', '' [] False else h)"
    by (simp add: frame_print frame_refl)
  with frame_print_expr_owner[OF a] Cons.IH[OF rest] show ?case using frame_trans by blast
qed

lemma frame_get_call_result: "get_call_result_var_ssa ir c h us = (r, h') \<Longrightarrow> frame c h h'"
proof (induction ir c h us rule: get_call_result_var_ssa.induct)
  case (1 ir self h)
  then show ?case by (simp add: frame_refl)
next
  case (2 ir self h src dst rest)
  then show ?case by (auto split: prod.splits dest: frame_naming)
qed simp_all

lemma frame_print_call_results: "print_call_results ir c h idx rs = Inr h' \<Longrightarrow> frame c h h'"
proof (induction rs arbitrary: h idx)
  case Nil
  then show ?case by (simp add: frame_refl)
next
  case (Cons r rs)
  let ?h0 = "if idx > 0 then print c h '', '' [] False else h"
  obtain res h1 where g: "get_call_result_var_ssa ir c ?h0 (uses ir r) = (res, h1)"
    by (cases "get_call_result_var_ssa ir c ?h0 (uses ir r)")
  with Cons.prems obtain n where
    rest: "print_call_results ir c (print c h1 n [] False) (Suc idx) rs = Inr h'"
    by (cases res) auto
  have "frame c h ?h0" by (simp add: frame_print frame_refl)
  with frame_get_call_result[OF g] have "frame c h (print c h1 n [] False)"
    using frame_trans frame_print_after by blast
  with Cons.IH[OF rest] show ?case using frame_trans by blast
qed

lemma frame_print_call: "print_call ir c h tgt args rs = Inr h' \<Longrightarrow> frame c h h'"
proof -
  assume "print_call ir c h tgt args rs = Inr h'"
  then obtain h1 h2 where
    a: "print_call_args ir c (print c h (''call '' @ tgt @ ''('') [] True) 0 args = Inr h1"
    and r: "print_call_results ir c h1 (length args) rs = Inr h2"
    and e: "h' = print c h2 '')'' [newline] False"
    by (auto simp: print_call_def err_bind_Inr_iff)
  have "frame c h h1" using frame_print frame_print_call_args[OF a] frame_trans by blast
  with frame_print_call_results[OF r] e show ?thesis
    using frame_trans frame_print_after by blast
qed

lemma wf_print: "wf_ctx c h \<Longrightarrow> wf_ctx c (print c' h t e u)"
  by (simp add: wf_ctx_def print_def)

lemma descend_child_wf:
  "wf_ctx c h \<Longrightarrow> descend c h = (inner, h1) \<Longrightarrow> wf_ctx inner h1"
  by (auto simp: descend_def wf_ctx_def Let_def)

lemma child_frame:
  assumes wf: "wf_ctx c h" and d: "descend c h = (inner, h1)" and f: "frame inner h1 h2"
  shows "frame c h h2" and "ctxs h2 c = ctxs h c"
    and "var_dicts h2 (variables (ctxs h c)) = var_dicts h (variables (ctxs h c))"
proof -
  let ?a = "next_addr h"
  have inner: "inner = ?a" using d by (auto simp: descend_def Let_def)
  have h1: "h1 = h\<lparr>ctxs := (ctxs h)(?a := \<lparr>prefix = prefix (ctxs h c) @ INDENT, variables = ?a + 1,
                                     counter = counter (ctxs h c), binops = binops (ctxs h c),
                                     cmp_ops = cmp_ops (ctxs h c)\<rparr>),
             var_dicts := (var_dicts h)(?a + 1 := var_dicts h (variables (ctxs h c))),
             next_addr := ?a + 2\<rparr>"
    using d by (auto simp: descend_def Let_def)
  have c: "c < ?a" and v: "variables (ctxs h c) < ?a" using wf by (simp_all add: wf_ctx_def)
  have n1: "next_addr h1 = ?a + 2" by (simp add: h1)
  have vi: "variables (ctxs h1 inner) = ?a + 1" by (simp add: h1 inner)
  have n2: "next_addr h1 \<le> next_addr h2" using f by (simp add: frame_def)
  have cc: "ctxs h2 a = ctxs h a" if "a < ?a" for a
  proof -
    have "a < next_addr h1" "a \<noteq> inner" using that n1 inner by simp_all
    then have "ctxs h2 a = ctxs h1 a" using f by (simp add: frame_def)
    also have "\<dots> = ctxs h a" using that by (simp add: h1)
    finally show ?thesis .
  qed
  have dd: "var_dicts h2 a = var_dicts h a" if "a < ?a" for a
  proof -
    have "a < next_addr h1" "a \<noteq> variables (ctxs h1 inner)" using that n1 vi by simp_all
    then have "var_dicts h2 a = var_dicts h1 a" using f by (simp add: frame_def)
    also have "\<dots> = var_dicts h a" using that by (simp add: h1)
    finally show ?thesis .
  qed
  have tabs: "binop_dicts h2 = binop_dicts h" "cmp_dicts h2 = cmp_dicts h"
    using f by (simp_all add: frame_def h1)
  show "ctxs h2 c = ctxs h c" by (rule cc[OF c])
  show "var_dicts h2 (variables (ctxs h c)) = var_dicts h (variables (ctxs h c))" by (rule dd[OF v])
  show "frame c h h2"
    unfolding frame_def using n1 n2 cc dd tabs c by auto
qed

lemma frame_print_intents: "print_intents ir i h intent idx ts = Inr h' \<Longrightarrow> frame c h h'"
proof (induction ts arbitrary: h idx)
  case Nil
  then show ?case by (simp add: frame_refl)
next
  case (Cons t ts)
  from Cons.prems obtain s where
    "print_intents ir i (print i h (str_of_opt s @ '', intent('' @ intent @ '') :: arg_''
                        @ str_of_int (int idx)) [newline] True) intent (Suc idx) ts = Inr h'"
    by (auto simp: err_bind_Inr_iff)
  from Cons.IH[OF this] show ?case using frame_print frame_trans by blast
qed

lemma frame_print_op_block:
  "wf_ctx c h \<Longrightarrow> print_op ir c h p = Inr h' \<Longrightarrow> frame c h h'"
  "wf_ctx c h \<Longrightarrow> print_block ir c h ps = Inr h' \<Longrightarrow> frame c h h'"
proof (induction ir c h p and ir c h ps arbitrary: h' and h' rule: print_op_print_block.induct)
  case (1 ir self h l t sh)
  then show ?case
    by (auto simp: frame_def split: list.splits op.splits option.splits)
next
  case (2 ir self h sym_name inputs outputs body)
  show ?case
  proof (cases body)
    case None
    then show ?thesis using "2.prems" by (simp add: frame_refl)
  next
    case (Some bdy)
    define args where "args = join '', '' (map (\<lambda>idx. ''arg_'' @ str_of_int (int idx))
                                      [0 ..< length (inputs @ outputs)])"
    define h1 where "h1 = print self h ([newline] @ ''subroutine '' @ sym_name @ ''('' @ args @ '')''
                                  @ '' '') [newline] True"
    obtain inner h2 where d: "descend self h1 = (inner, h2)" by (cases "descend self h1")
    from "2.prems"(2) Some d obtain h3 h4 h5 where
      i1: "print_intents ir inner h2 ''in'' 0 inputs = Inr h3"
      and i2: "print_intents ir inner h3 ''out'' (length inputs) outputs = Inr h4"
      and b: "print_block ir inner (print inner h4 [] [newline] True) bdy = Inr h5"
      and e: "h' = print self h5 (''end subroutine '' @ sym_name @ '' '') [newline] True"
      by (auto simp: err_bind_Inr_iff Let_def args_def h1_def)
    have wf1: "wf_ctx self h1" unfolding h1_def using "2.prems"(1) by (rule wf_print)
    have wfi: "wf_ctx inner h2" by (rule descend_child_wf[OF wf1 d])
    have fi: "frame inner h2 (print inner h4 [] [newline] True)"
      using frame_print_intents[OF i1] frame_print_intents[OF i2] frame_trans frame_print_after
      by blast
    have wfi': "wf_ctx inner (print inner h4 [] [newline] True)" by (rule wf_frame[OF wfi fi])
    have "frame inner (print inner h4 [] [newline] True) h5"
      by (rule "2.IH"[OF Some args_def h1_def d[symmetric] i1 i2 wfi' b])
    with fi have "frame inner h2 h5" using frame_trans by blast
    from child_frame(1)[OF wf1 d this] have "frame self h1 h5" .
    moreover have "frame self h h1" unfolding h1_def by (rule frame_print)
    ultimately show ?thesis unfolding e using frame_trans frame_print_after by blast
  qed
next
  case (3 ir self h callee arguments res)
  then show ?case by (auto dest: frame_print_call)
next
  case (4 ir self h conditional ts true_bdy false_bdy)
  from "4.prems"(2) obtain h1 where
    c: "print_expr_owner ir self (print self h ''if ('' [] True) conditional = Inr h1"
    and rest: "(case descend self (print self h1 '') then'' [newline] False) of (inner, h2) \<Rightarrow>
        err_bind (print_block ir inner h2 true_bdy) (\<lambda>h3.
        err_bind (case false_bdy of
                    None \<Rightarrow> Inr h3
                  | Some b \<Rightarrow>
                      (case descend self (print self h3 ''else'' [newline] True) of
                         (inner', h4) \<Rightarrow> print_block ir inner' h4 b)) (\<lambda>h5.
        Inr (print self h5 ''end if'' [newline] True)))) = Inr h'"
    by (auto simp: err_bind_Inr_iff)
  let ?p1 = "print self h1 '') then'' [newline] False"
  obtain inner h2 where d: "descend self ?p1 = (inner, h2)" by (cases "descend self ?p1")
  from rest d obtain h3 h5 where
    t: "print_block ir inner h2 true_bdy = Inr h3"
    and f: "(case false_bdy of
                    None \<Rightarrow> Inr h3
                  | Some b \<Rightarrow>
                      (case descend self (print self h3 ''else'' [newline] True) of
                         (inner', h4) \<Rightarrow> print_block ir inner' h4 b)) = Inr h5"
    and e: "h' = print self h5 ''end if'' [newline] True"
    by (auto simp: err_bind_Inr_iff)
  have f01: "frame self h h1"
    using frame_print frame_print_expr_owner[OF c] frame_trans by blast
  have wf1: "wf_ctx self h1" by (rule wf_frame[OF "4.prems"(1) f01])
  have wfp: "wf_ctx self ?p1" using wf1 by (rule wf_print)
  have wfi: "wf_ctx inner h2" by (rule descend_child_wf[OF wfp d])
  have "frame inner h2 h3" by (rule "4.IH"(1)[OF c d[symmetric] wfi t])
  from child_frame(1)[OF wfp d this] have fp3: "frame self ?p1 h3" .
  have f03: "frame self h h3" using f01 fp3 frame_print_after frame_trans by blast
  have wf3: "wf_ctx self h3" by (rule wf_frame[OF "4.prems"(1) f03])
  have f35: "frame self h3 h5"
  proof (cases false_bdy)
    case None
    then show ?thesis using f by (simp add: frame_refl)
  next
    case (Some b)
    let ?p3 = "print self h3 ''else'' [newline] True"
    obtain inner' h4 where d': "descend self ?p3 = (inner', h4)" by (cases "descend self ?p3")
    from f Some d' have pb: "print_block ir inner' h4 b = Inr h5" by simp
    have wfp3: "wf_ctx self ?p3" using wf3 by (rule wf_print)
    have wfi': "wf_ctx inner' h4" by (rule descend_child_wf[OF wfp3 d'])
    have "frame inner' h4 h5" by (rule "4.IH"(2)[OF c d[symmetric] t Some d'[symmetric] wfi' pb])
    from child_frame(1)[OF wfp3 d' this] show ?thesis using frame_print frame_trans by blast
  qed
  show ?case unfolding e using f03 f35 frame_trans frame_print_after by blast
next
  case (5 ir self h val arr idxs)
  obtain arr_name h1 where n: "get_variable_name_for ir self h arr None = (arr_name, h1)"
    by (cases "get_variable_name_for ir self h arr None")
  obtain idx_names h2 where ns: "names_for ir self h1 idxs = (idx_names, h2)"
    by (cases "names_for ir self h1 idxs")
  define h3 where "h3 = (if length (join '', '' idx_names) > 0
                      then print self h2 (arr_name @ ''['' @ join '', '' idx_names @ ''] = '') [] True
                      else print self h2 (arr_name @ '' = '') [] True)"
  from "5.prems"(2) n ns obtain h4 where
    v: "print_expr_owner ir self h3 val = Inr h4" and e: "h' = print self h4 [] [newline] True"
    by (auto simp: err_bind_Inr_iff Let_def h3_def)
  have "frame self h h2" using frame_naming[OF n] frame_names_for[OF ns] frame_trans by blast
  moreover have "frame self h2 h3" by (simp add: h3_def frame_print)
  ultimately have "frame self h h4" using frame_print_expr_owner[OF v] frame_trans by blast
  then show ?case unfolding e by (rule frame_print_after)
next
  case (15 ir self h p ps)
  from "15.prems"(2) obtain h1 where p: "print_op ir self h p = Inr h1"
    and r: "print_block ir self h1 ps = Inr h'"
    by (auto simp: err_bind_Inr_iff)
  have f1: "frame self h h1" by (rule "15.IH"(1)[OF "15.prems"(1) p])
  have "wf_ctx self h1" by (rule wf_frame[OF "15.prems"(1) f1])
  from "15.IH"(2)[OF p this r] f1 show ?case using frame_trans by blast
qed (simp_all add: frame_refl)

lemma naming_depends:
  assumes "ctxs h2 self = ctxs h self"
    and "var_dicts h2 (variables (ctxs h self)) = var_dicts h (variables (ctxs h self))"
  shows "fst (get_variable_name_for ir self h2 w hint) = fst (get_variable_name_for ir self h w hint)"
  unfolding get_variable_name_for_def Let_def assms
  by (simp split: option.splits)

text \<open>
  C5, as amended. The context that \<^verbatim>\<open>descend\<close> makes sees the bindings of the outer
  context in a dictionary of its own, starts from the value that the outer counter has at
  that moment, refers to the same two operator tables and has a longer prefix. Whatever
  block the inner context prints, the outer context, its counter and its bindings are
  afterwards what they were before: the increments of the inner counter are not seen
  outside, a name bound inside is not bound outside, the outer context names a value as if
  the inner one had never run, and a hint that was free outside is used verbatim even if
  the inner context used it.
\<close>

theorem C5_child_scope_is_isolated:
  assumes "wf_ctx self h" and "descend self h = (inner, h1)"
    and "print_block ir inner h1 body = Inr h2"
  shows "bindings h1 inner = bindings h self
       \<and> variables (ctxs h1 inner) \<noteq> variables (ctxs h self)
       \<and> counter (ctxs h1 inner) = counter (ctxs h self)
       \<and> binops (ctxs h1 inner) = binops (ctxs h self)
       \<and> cmp_ops (ctxs h1 inner) = cmp_ops (ctxs h self)
       \<and> prefix (ctxs h1 inner) = prefix (ctxs h self) @ INDENT
       \<and> bindings h2 self = bindings h self
       \<and> ctxs h2 self = ctxs h self
       \<and> counter (ctxs h2 self) = counter (ctxs h self)
       \<and> binop_dicts h2 = binop_dicts h \<and> cmp_dicts h2 = cmp_dicts h
       \<and> (\<forall>w hint. fst (get_variable_name_for ir self h2 w hint)
                     = fst (get_variable_name_for ir self h w hint))
       \<and> (\<forall>w x. map_of (bindings h self) w = None \<and> name_hint ir w = Some x
                 \<and> x \<notin> set (dict_values (bindings h self))
              \<longrightarrow> fst (get_variable_name_for ir self h2 w None) = x)"
proof -
  have wfi: "wf_ctx inner h1" by (rule descend_child_wf[OF assms(1,2)])
  have f: "frame inner h1 h2" by (rule frame_print_op_block(2)[OF wfi assms(3)])
  note cf = child_frame[OF assms(1,2) f]
  have v: "variables (ctxs h self) < next_addr h" using assms(1) by (simp add: wf_ctx_def)
  have at_descent: "bindings h1 inner = bindings h self
       \<and> variables (ctxs h1 inner) \<noteq> variables (ctxs h self)
       \<and> counter (ctxs h1 inner) = counter (ctxs h self)
       \<and> binops (ctxs h1 inner) = binops (ctxs h self)
       \<and> cmp_ops (ctxs h1 inner) = cmp_ops (ctxs h self)
       \<and> prefix (ctxs h1 inner) = prefix (ctxs h self) @ INDENT"
    using assms(2) v by (auto simp: descend_def bindings_def Let_def)
  have b: "bindings h2 self = bindings h self" using cf(2,3) by (simp add: bindings_def)
  have tabs: "binop_dicts h2 = binop_dicts h \<and> cmp_dicts h2 = cmp_dicts h"
    using cf(1) by (simp add: frame_def)
  have same: "\<forall>w hint. fst (get_variable_name_for ir self h2 w hint)
                     = fst (get_variable_name_for ir self h w hint)"
    using naming_depends[OF cf(2,3)] by blast
  have reuse: "\<forall>w x. map_of (bindings h self) w = None \<and> name_hint ir w = Some x
                 \<and> x \<notin> set (dict_values (bindings h self))
              \<longrightarrow> fst (get_variable_name_for ir self h2 w None) = x"
  proof (intro allI impI)
    fix w x
    assume a: "map_of (bindings h self) w = None \<and> name_hint ir w = Some x
                 \<and> x \<notin> set (dict_values (bindings h self))"
    obtain n h' where g: "get_variable_name_for ir self h w None = (n, h')"
      by (cases "get_variable_name_for ir self h w None")
    have "n = x" using naming_new(3)[OF _ g] a by blast
    with g same show "fst (get_variable_name_for ir self h2 w None) = x" by simp
  qed
  have cnt: "counter (ctxs h2 self) = counter (ctxs h self)" using cf(2) by simp
  from at_descent b cf(2) cnt tabs same reuse show ?thesis by blast
qed

theorem C5_child_scope_is_isolated_witness:
  "wf_ctx 0 ex_store
 \<and> descend 0 ex_store = (4, snd (descend 0 ex_store))
 \<and> (\<exists>h2. print_block ex_hint_ir 4 (snd (descend 0 ex_store)) ex_child_body = Inr h2
        \<and> map_of (bindings h2 4) (BlockArgument 0) = Some ''x''
        \<and> bindings h2 0 = []
        \<and> fst (get_variable_name_for ex_hint_ir 0 h2 (BlockArgument 1) None) = ''x'')"
proof -
  have wf: "wf_ctx 0 ex_store"
    by (simp add: wf_ctx_def ex_store_def new_context_def register_binops_def empty_store_def
        Let_def)
  have d: "descend 0 ex_store = (4, snd (descend 0 ex_store))"
    by (simp add: descend_def ex_store_def new_context_def register_binops_def empty_store_def
        Let_def)
  have empty: "bindings ex_store 0 = []"
    by (simp add: bindings_def ex_store_def new_context_def register_binops_def empty_store_def
        Let_def)
  have run: "\<exists>h2. print_block ex_hint_ir 4 (snd (descend 0 ex_store)) ex_child_body = Inr h2
        \<and> map_of (bindings h2 4) (BlockArgument 0) = Some ''x''"
    by (simp add: ex_child_body_def bindings_def printer_defs ex_hint_ir_def ex_store_def
        ex_zero_def result_def eval_defs)
  then obtain h2 where
    r: "print_block ex_hint_ir 4 (snd (descend 0 ex_store)) ex_child_body = Inr h2"
    and x: "map_of (bindings h2 4) (BlockArgument 0) = Some ''x''" by blast
  have hint: "name_hint ex_hint_ir (BlockArgument 1) = Some ''x''" by (simp add: ex_hint_ir_def)
  note c5 = C5_child_scope_is_isolated[OF wf d r]
  from c5 have b0: "bindings h2 0 = bindings ex_store 0" by blast
  from c5 have reuse: "\<forall>w x. map_of (bindings ex_store 0) w = None \<and> name_hint ex_hint_ir w = Some x
                 \<and> x \<notin> set (dict_values (bindings ex_store 0))
              \<longrightarrow> fst (get_variable_name_for ex_hint_ir 0 h2 w None) = x" by blast
  have pre: "map_of (bindings ex_store 0) (BlockArgument 1) = None
      \<and> name_hint ex_hint_ir (BlockArgument 1) = Some ''x''
      \<and> ''x'' \<notin> set (dict_values (bindings ex_store 0))"
    using empty hint by (simp add: dict_values_def)
  have "bindings h2 0 = []" using b0 empty by simp
  moreover have "fst (get_variable_name_for ex_hint_ir 0 h2 (BlockArgument 1) None) = ''x''"
    using reuse pre by blast
  ultimately have "bindings h2 0 = []"
    "fst (get_variable_name_for ex_hint_ir 0 h2 (BlockArgument 1) None) = ''x''" by blast+
  with wf d r x show ?thesis by blast
qed

text \<open>
  C5, as stated, fails: the counter is not shared. An inner context that names the buffer
  and the index of an assignment \<open>v0\<close> and \<open>v1\<close> ends with its counter at 2, while the
  counter of the outer context is still 0 and the next value that the outer context names
  is \<open>v0\<close> again.
\<close>

theorem C5_counter_is_not_shared:
  "descend 0 ex_store = (4, snd (descend 0 ex_store))
 \<and> counter_after (print_block ex_ir 4 (snd (descend 0 ex_store)) ex_indexed_body) 4 = Inr 2
 \<and> counter_after (print_block ex_ir 4 (snd (descend 0 ex_store)) ex_indexed_body) 0 = Inr 0
 \<and> name_after (print_block ex_ir 4 (snd (descend 0 ex_store)) ex_indexed_body) 4 (BlockArgument 0)
     = Inr (Some ''v0'')
 \<and> next_name_after ex_ir (print_block ex_ir 4 (snd (descend 0 ex_store)) ex_indexed_body) 0
       (BlockArgument 2) = Inr ''v0''"
  by (simp add: counter_after_def name_after_def next_name_after_def ex_indexed_body_def
      bindings_def printer_defs ex_ir_def ex_store_def ex_zero_def result_def eval_defs
      split: prod.splits)

section \<open>Properties of the metadata parser and of the descriptor builder\<close>

lemmas parser_defs = parse_metadata_file_def parse_line_def parse_bracket_line_def
  parse_value_line_def store_current_arg_def append_current_table_def bracket_token_def
  is_bracket_line_def initial_parser_def setAttr_def table_properties_setAttr_def
  arg_table_setAttr_def setFunctionArgument_def CCPPType_def strip_def is_space_def
  py_index_def initial_builder_def known_props_def

text \<open>
  The parser: only the header of an argument table adds a table to those seen, and every
  header adds one, whatever the names.
\<close>

lemma store_current_arg_seen: "store_current_arg st = Inr st' \<Longrightarrow> tables_seen st' = tables_seen st"
  by (auto simp: store_current_arg_def tables_seen_def split: option.splits)

lemma store_current_arg_fields:
  "store_current_arg st = Inr st' \<Longrightarrow>
     table_arg_tables st' = table_arg_tables st
   \<and> (current_arg_table st' = None \<longleftrightarrow> current_arg_table st = None)"
  by (auto simp: store_current_arg_def split: option.splits)

lemma parse_bracket_line_seen:
  "parse_bracket_line st token = Inr st' \<Longrightarrow>
     tables_seen st' = tables_seen st + (if token = ''ccpp-arg-table'' then 1 else 0)"
proof -
  assume run: "parse_bracket_line st token = Inr st'"
  consider (props) "token = ''ccpp-table-properties''" | (table) "token = ''ccpp-arg-table''"
    | (other) "token \<noteq> ''ccpp-table-properties''" "token \<noteq> ''ccpp-arg-table''" by blast
  then show ?thesis
  proof cases
    case props
    with run obtain st1 where s: "store_current_arg st = Inr st1"
      and r: "st' = ((append_current_table (st1\<lparr>current_arg := None\<rparr>))
                           \<lparr>current_arg_table := None\<rparr>)
                     \<lparr>current_table_properties := Some \<lparr>attrs = []\<rparr>, parse_state := PROPERTIES\<rparr>"
      by (auto simp: parse_bracket_line_def err_bind_Inr_iff split: if_splits)
    have "tables_seen st' = tables_seen st1"
      unfolding r by (simp add: tables_seen_def append_current_table_def split: option.splits)
    with store_current_arg_seen[OF s] props show ?thesis by simp
  next
    case table
    with run obtain st1 where s: "store_current_arg st = Inr st1"
      and r: "st' = ((append_current_table (st1\<lparr>current_arg := None\<rparr>))
                           \<lparr>current_arg_table := None\<rparr>)
                     \<lparr>parse_state := ARG_TABLE,
                      current_arg_table := Some \<lparr>attrs = [], function_arguments = []\<rparr>\<rparr>"
      by (auto simp: parse_bracket_line_def err_bind_Inr_iff split: if_splits)
    have "tables_seen st' = tables_seen st1 + 1"
      unfolding r by (simp add: tables_seen_def append_current_table_def split: option.splits)
    with store_current_arg_seen[OF s] table show ?thesis by simp
  next
    case other
    with run obtain st3 where s: "store_current_arg st = Inr st3"
      and r: "st' = st3\<lparr>parse_state := ARG, current_arg := Some \<lparr>attrs = [], name = strip token\<rparr>\<rparr>"
      by (auto simp: parse_bracket_line_def err_bind_Inr_iff split: if_splits)
    have "tables_seen st' = tables_seen st3" unfolding r by (simp add: tables_seen_def)
    with store_current_arg_seen[OF s] other show ?thesis by simp
  qed
qed

lemma parse_value_line_seen:
  assumes "parse_value_line st sline = Inr st'"
  shows "tables_seen st' = tables_seen st"
proof -
  from assms obtain k v where
    body: "(case parse_state st of
           PROPERTIES \<Rightarrow>
             (case current_table_properties st of
                None \<Rightarrow> Inl AssertionError
              | Some p \<Rightarrow> err_bind (table_properties_setAttr p (strip k) (strip v)) (\<lambda>p'.
                          Inr (st\<lparr>current_table_properties := Some p'\<rparr>)))
         | ARG_TABLE \<Rightarrow>
             (case current_arg_table st of
                None \<Rightarrow> Inl AssertionError
              | Some t \<Rightarrow> err_bind (arg_table_setAttr t (strip k) (strip v)) (\<lambda>t'.
                          Inr (st\<lparr>current_arg_table := Some t'\<rparr>)))
         | ARG \<Rightarrow>
             (case current_arg st of
                None \<Rightarrow> Inl AssertionError
              | Some a \<Rightarrow> err_bind (setAttr a (strip k) (strip v) None) (\<lambda>a'.
                          Inr (st\<lparr>current_arg := Some a'\<rparr>)))
         | NONE \<Rightarrow> Inr st) = Inr st'"
    unfolding parse_value_line_def by (auto simp: err_bind_Inr_iff split: if_splits)
  show ?thesis
  proof (cases "parse_state st")
    case PROPERTIES
    with body show ?thesis
      by (cases "current_table_properties st") (auto simp: err_bind_Inr_iff tables_seen_def)
  next
    case ARG_TABLE
    with body show ?thesis
      by (cases "current_arg_table st") (auto simp: err_bind_Inr_iff tables_seen_def)
  next
    case ARG
    with body show ?thesis
      by (cases "current_arg st") (auto simp: err_bind_Inr_iff tables_seen_def)
  next
    case NONE
    with body show ?thesis by simp
  qed
qed

lemma parse_line_seen:
  "parse_line st line = Inr st' \<Longrightarrow>
     tables_seen st' = tables_seen st + (if is_arg_table_header line then 1 else 0)"
  by (auto simp: parse_line_def Let_def is_arg_table_header_def
      dest: parse_bracket_line_seen parse_value_line_seen split: if_splits)

lemma parse_lines_seen:
  "parse_lines st ls = Inr st' \<Longrightarrow>
     tables_seen st' = tables_seen st + length (filter is_arg_table_header ls)"
proof (induction ls arbitrary: st)
  case Nil
  then show ?case by simp
next
  case (Cons line rest)
  from Cons.prems obtain st1 where l: "parse_line st line = Inr st1"
    and r: "parse_lines st1 rest = Inr st'" by (auto simp: err_bind_Inr_iff)
  from parse_line_seen[OF l] Cons.IH[OF r] show ?case by simp
qed

lemma parse_metadata_file_keeps_all:
  assumes "parse_metadata_file file = Inr (p, ts)"
  shows "length ts = length (filter is_arg_table_header file)"
proof -
  from assms obtain st st1 where l: "parse_lines initial_parser file = Inr st"
    and s: "store_current_arg st = Inr st1"
    and ts: "ts = table_arg_tables (append_current_table st1)"
    by (auto simp: parse_metadata_file_def err_bind_Inr_iff split: option.splits)
  have "length ts = tables_seen st1"
    unfolding ts by (simp add: tables_seen_def append_current_table_def split: option.splits)
  also have "\<dots> = tables_seen st" by (rule store_current_arg_seen[OF s])
  also have "\<dots> = tables_seen initial_parser + length (filter is_arg_table_header file)"
    by (rule parse_lines_seen[OF l])
  also have "tables_seen initial_parser = 0" by (simp add: tables_seen_def initial_parser_def)
  finally show ?thesis by simp
qed

text \<open>
  The parser only ever appends to its list of tables, and the header of an argument table
  closes the table in progress exactly as the end of the file does. So the tables of the
  text before a table header are the first tables of the whole file.
\<close>

lemma append_current_table_extends:
  "\<exists>new. table_arg_tables (append_current_table st) = table_arg_tables st @ new"
  by (simp add: append_current_table_def split: option.splits)

lemma parse_bracket_line_extends:
  assumes "parse_bracket_line st token = Inr st'"
  shows "\<exists>new. table_arg_tables st' = table_arg_tables st @ new"
proof -
  from assms obtain st2 where
    first: "(if token = ''ccpp-table-properties'' \<or> token = ''ccpp-arg-table''
               then err_bind (store_current_arg st) (\<lambda>st1.
                    Inr ((append_current_table (st1\<lparr>current_arg := None\<rparr>))
                           \<lparr>current_arg_table := None\<rparr>))
               else Inr st) = Inr st2"
    and second: "(if token = ''ccpp-table-properties'' then
       (if current_table_properties st2 \<noteq> None then Inl AssertionError
        else Inr (st2\<lparr>current_table_properties := Some \<lparr>attrs = []\<rparr>,
                      parse_state := PROPERTIES\<rparr>))
     else if token = ''ccpp-arg-table'' then
       Inr (st2\<lparr>parse_state := ARG_TABLE,
                current_arg_table := Some \<lparr>attrs = [], function_arguments = []\<rparr>\<rparr>)
     else if token = [] then Inl IndexError
     else if hd token = CHR '' '' \<and> last token = CHR '' '' then
       err_bind (store_current_arg st2) (\<lambda>st3.
       Inr (st3\<lparr>parse_state := ARG, current_arg := Some \<lparr>attrs = [], name = strip token\<rparr>\<rparr>))
     else Inl AssertionError) = Inr st'"
    unfolding parse_bracket_line_def err_bind_Inr_iff by blast
  have a: "\<exists>new. table_arg_tables st2 = table_arg_tables st @ new"
  proof (cases "token = ''ccpp-table-properties'' \<or> token = ''ccpp-arg-table''")
    case True
    with first obtain st1 where s: "store_current_arg st = Inr st1"
      and r: "st2 = (append_current_table (st1\<lparr>current_arg := None\<rparr>))\<lparr>current_arg_table := None\<rparr>"
      by (auto simp: err_bind_Inr_iff)
    have "table_arg_tables (st1\<lparr>current_arg := None\<rparr>) = table_arg_tables st"
      using store_current_arg_fields[OF s] by simp
    with append_current_table_extends[of "st1\<lparr>current_arg := None\<rparr>"] r show ?thesis by auto
  next
    case False
    with first show ?thesis by simp
  qed
  have b: "table_arg_tables st' = table_arg_tables st2"
    using second
    by (auto simp: err_bind_Inr_iff split: if_splits dest: store_current_arg_fields)
  from a b show ?thesis by simp
qed

lemma parse_value_line_extends:
  assumes "parse_value_line st sline = Inr st'"
  shows "table_arg_tables st' = table_arg_tables st"
proof -
  from assms obtain k v where
    body: "(case parse_state st of
           PROPERTIES \<Rightarrow>
             (case current_table_properties st of
                None \<Rightarrow> Inl AssertionError
              | Some p \<Rightarrow> err_bind (table_properties_setAttr p (strip k) (strip v)) (\<lambda>p'.
                          Inr (st\<lparr>current_table_properties := Some p'\<rparr>)))
         | ARG_TABLE \<Rightarrow>
             (case current_arg_table st of
                None \<Rightarrow> Inl AssertionError
              | Some t \<Rightarrow> err_bind (arg_table_setAttr t (strip k) (strip v)) (\<lambda>t'.
                          Inr (st\<lparr>current_arg_table := Some t'\<rparr>)))
         | ARG \<Rightarrow>
             (case current_arg st of
                None \<Rightarrow> Inl AssertionError
              | Some a \<Rightarrow> err_bind (setAttr a (strip k) (strip v) None) (\<lambda>a'.
                          Inr (st\<lparr>current_arg := Some a'\<rparr>)))
         | NONE \<Rightarrow> Inr st) = Inr st'"
    unfolding parse_value_line_def by (auto simp: err_bind_Inr_iff split: if_splits)
  show ?thesis
  proof (cases "parse_state st")
    case PROPERTIES
    with body show ?thesis
      by (cases "current_table_properties st") (auto simp: err_bind_Inr_iff)
  next
    case ARG_TABLE
    with body show ?thesis
      by (cases "current_arg_table st") (auto simp: err_bind_Inr_iff)
  next
    case ARG
    with body show ?thesis
      by (cases "current_arg st") (auto simp: err_bind_Inr_iff)
  next
    case NONE
    with body show ?thesis by simp
  qed
qed

lemma parse_line_extends:
  "parse_line st line = Inr st' \<Longrightarrow> \<exists>new. table_arg_tables st' = table_arg_tables st @ new"
  by (auto simp: parse_line_def Let_def split: if_splits
      dest: parse_bracket_line_extends parse_value_line_extends)

lemma parse_lines_extends:
  "parse_lines st ls = Inr st' \<Longrightarrow> \<exists>new. table_arg_tables st' = table_arg_tables st @ new"
proof (induction ls arbitrary: st)
  case Nil
  then show ?case by simp
next
  case (Cons line rest)
  from Cons.prems obtain st1 where l: "parse_line st line = Inr st1"
    and r: "parse_lines st1 rest = Inr st'" by (auto simp: err_bind_Inr_iff)
  from parse_line_extends[OF l] Cons.IH[OF r] show ?case by auto
qed

lemma parse_lines_append:
  "parse_lines st (xs @ ys) = err_bind (parse_lines st xs) (\<lambda>st1. parse_lines st1 ys)"
proof (induction xs arbitrary: st)
  case Nil
  then show ?case by (simp add: err_bind_def)
next
  case (Cons x xs)
  then show ?case by (cases "parse_line st x") (simp_all add: err_bind_def)
qed

lemma table_header_closes:
  assumes "parse_line st line = Inr st'" and "is_arg_table_header line"
  shows "\<exists>st1. store_current_arg st = Inr st1
           \<and> table_arg_tables st' = table_arg_tables (append_current_table st1)"
proof -
  from assms have "parse_bracket_line st ''ccpp-arg-table'' = Inr st'"
    by (simp add: parse_line_def is_arg_table_header_def Let_def)
  then obtain st1 where s: "store_current_arg st = Inr st1"
    and r: "st' = ((append_current_table (st1\<lparr>current_arg := None\<rparr>))
                           \<lparr>current_arg_table := None\<rparr>)
                     \<lparr>parse_state := ARG_TABLE,
                      current_arg_table := Some \<lparr>attrs = [], function_arguments = []\<rparr>\<rparr>"
    by (auto simp: parse_bracket_line_def err_bind_Inr_iff)
  have "table_arg_tables st' = table_arg_tables (append_current_table st1)"
    unfolding r by (simp add: append_current_table_def split: option.splits)
  with s show ?thesis by blast
qed

lemma parse_metadata_file_prefix:
  assumes "parse_metadata_file (ls1 @ line # ls2) = Inr (p, ts)"
    and "is_arg_table_header line"
    and "parse_metadata_file ls1 = Inr (p1, ts1)"
  shows "\<exists>later. ts = ts1 @ later"
proof -
  from assms(1) obtain st st2 where l: "parse_lines initial_parser (ls1 @ line # ls2) = Inr st"
    and s: "store_current_arg st = Inr st2"
    and ts: "ts = table_arg_tables (append_current_table st2)"
    by (auto simp: parse_metadata_file_def err_bind_Inr_iff split: option.splits)
  from l obtain sa sb where la: "parse_lines initial_parser ls1 = Inr sa"
    and lb: "parse_line sa line = Inr sb" and lc: "parse_lines sb ls2 = Inr st"
    unfolding parse_lines_append by (auto simp: err_bind_Inr_iff)
  from table_header_closes[OF lb assms(2)] obtain sa1 where
    c1: "store_current_arg sa = Inr sa1"
    and c2: "table_arg_tables sb = table_arg_tables (append_current_table sa1)" by blast
  from assms(3) la c1 have ts1: "ts1 = table_arg_tables (append_current_table sa1)"
    by (auto simp: parse_metadata_file_def err_bind_Inr_iff split: option.splits)
  from parse_lines_extends[OF lc] obtain n1 where
    e1: "table_arg_tables st = table_arg_tables sb @ n1" by blast
  have e2: "table_arg_tables st2 = table_arg_tables st"
    using store_current_arg_fields[OF s] by simp
  from append_current_table_extends[of st2] obtain n2 where
    e3: "table_arg_tables (append_current_table st2) = table_arg_tables st2 @ n2" by blast
  have "ts = ts1 @ (n1 @ n2)" using ts e1 e2 e3 c2 ts1 by simp
  then show ?thesis by blast
qed

text \<open>
  The builder: the loop over the body of a unit stores each table under its name, so the
  names of the dictionary stay distinct, the outcome does not depend on the names already
  there, and the table visited last is the one found under its name.
\<close>

lemma table_loop_Cons_Inr:
  "table_loop b (p # ps) acc = Inr r \<longleftrightarrow>
     (\<exists>b1 k v. traverse b p = Inr b1 \<and> arg_table b1 = Holds (k, v)
        \<and> table_loop (b1\<lparr>arg_table := IsNone\<rparr>) ps (AList.update k v acc) = Inr r)"
proof (cases "traverse b p")
  case (Inl e)
  then show ?thesis by (simp add: err_bind_def)
next
  case (Inr b1)
  show ?thesis
  proof (cases "arg_table b1")
    case Missing
    with Inr show ?thesis by (simp add: err_bind_def)
  next
    case IsNone
    with Inr show ?thesis by (simp add: err_bind_def)
  next
    case (Holds x)
    with Inr show ?thesis by (cases x) (simp add: err_bind_def)
  qed
qed

lemma table_loop_distinct:
  "table_loop b ps acc = Inr (b', tabs) \<Longrightarrow> distinct (map fst acc) \<Longrightarrow> distinct (map fst tabs)"
proof (induction ps arbitrary: b acc)
  case Nil
  then show ?case by simp
next
  case (Cons p ps)
  from Cons.prems(1) obtain b1 k v where
    "table_loop (b1\<lparr>arg_table := IsNone\<rparr>) ps (AList.update k v acc) = Inr (b', tabs)"
    unfolding table_loop_Cons_Inr by blast
  from Cons.IH[OF this] Cons.prems(2) show ?case by (simp add: distinct_update)
qed

lemma table_loop_any_acc:
  "table_loop b ps acc = Inr (b', tabs) \<Longrightarrow> \<exists>tabs'. table_loop b ps acc' = Inr (b', tabs')"
proof (induction ps arbitrary: b acc acc')
  case Nil
  then show ?case by simp
next
  case (Cons p ps)
  from Cons.prems obtain b1 k v where t: "traverse b p = Inr b1"
    and a: "arg_table b1 = Holds (k, v)"
    and r: "table_loop (b1\<lparr>arg_table := IsNone\<rparr>) ps (AList.update k v acc) = Inr (b', tabs)"
    unfolding table_loop_Cons_Inr by blast
  from Cons.IH[OF r, of "AList.update k v acc'"] t a show ?case
    unfolding table_loop_Cons_Inr by blast
qed

lemma table_loop_append:
  "table_loop b (ps @ qs) acc
     = err_bind (table_loop b ps acc) (\<lambda>(b1, t1). table_loop b1 qs t1)"
proof (induction ps arbitrary: b acc)
  case Nil
  then show ?case by (simp add: err_bind_def)
next
  case (Cons p ps)
  show ?case
  proof (cases "traverse b p")
    case (Inl e)
    then show ?thesis by (simp add: err_bind_def)
  next
    case (Inr b1)
    show ?thesis
    proof (cases "arg_table b1")
      case Missing
      with Inr show ?thesis by (simp add: err_bind_def)
    next
      case IsNone
      with Inr show ?thesis by (simp add: err_bind_def)
    next
      case (Holds x)
      with Inr Cons.IH show ?thesis by (cases x) (simp add: err_bind_def)
    qed
  qed
qed

lemma table_loop_last_wins:
  assumes "table_loop b (ps @ [p]) acc = Inr (b', tabs)"
  shows "\<exists>b1 t1 b2 k v. table_loop b ps acc = Inr (b1, t1) \<and> traverse b1 p = Inr b2
           \<and> arg_table b2 = Holds (k, v) \<and> tabs = AList.update k v t1 \<and> map_of tabs k = Some v"
proof -
  from assms obtain b1 t1 where l: "table_loop b ps acc = Inr (b1, t1)"
    and r: "table_loop b1 [p] t1 = Inr (b', tabs)"
    unfolding table_loop_append by (auto simp: err_bind_Inr_iff)
  from r obtain b2 k v where "traverse b1 p = Inr b2" "arg_table b2 = Holds (k, v)"
    "tabs = AList.update k v t1"
    unfolding table_loop_Cons_Inr by auto
  with l show ?thesis by (auto simp: update_conv')
qed

lemma table_properties_setAttr_keeps:
  "table_properties_setAttr p k v = Inr p' \<Longrightarrow> arg_tables p' = arg_tables p"
  by (auto simp: table_properties_setAttr_def setAttr_def err_bind_Inr_iff split: if_splits)

lemma traverse_table_properties_distinct:
  assumes "traverse b (TablePropertiesOp n t body) = Inr b'"
  shows "\<exists>props. map_of (meta_data b') n = Some props \<and> distinct (map fst (arg_tables props))"
proof -
  from assms obtain b1 tables p1 p2 where
    l: "table_loop (b\<lparr>arg_table := IsNone\<rparr>) body [] = Inr (b1, tables)"
    and p1: "table_properties_setAttr \<lparr>attrs = [], arg_tables = tables\<rparr> ''name'' n = Inr p1"
    and p2: "table_properties_setAttr p1 ''type'' t = Inr p2"
    and b': "b' = b1\<lparr>meta_data := AList.update n p2 (meta_data b1)\<rparr>"
    by (auto simp: err_bind_Inr_iff)
  have "arg_tables p2 = tables"
    using table_properties_setAttr_keeps[OF p1] table_properties_setAttr_keeps[OF p2] by simp
  moreover have "distinct (map fst tables)" using table_loop_distinct[OF l] by simp
  moreover have "map_of (meta_data b') n = Some p2" unfolding b' by (simp add: update_conv')
  ultimately show ?thesis by auto
qed

text \<open>
  C8, as amended. The parser keeps one table for every table header of the file, whatever
  the names, and in the order of the file: the tables of the text before a table header
  are the first tables of the result. The descriptor that the builder records for a unit
  has at most one table per name; whether its loop over the tables succeeds does not depend
  on the names stored before; and the table visited last is stored under its name in place
  of whatever was there.
\<close>

theorem C8_later_table_replaces_earlier:
  "(parse_metadata_file ls = Inr (p, ts) \<longrightarrow>
      length ts = length (filter is_arg_table_header ls))
 \<and> (parse_metadata_file (ls1 @ line # ls2) = Inr (p', ts') \<and> is_arg_table_header line
      \<and> parse_metadata_file ls1 = Inr (p1, ts1) \<longrightarrow>
      (\<exists>later. ts' = ts1 @ later))
 \<and> (traverse b (TablePropertiesOp n t body) = Inr b' \<longrightarrow>
      (\<exists>props. map_of (meta_data b') n = Some props \<and> distinct (map fst (arg_tables props))))
 \<and> (table_loop b ps acc = Inr (b1, tabs) \<longrightarrow>
      (\<exists>tabs'. table_loop b ps acc' = Inr (b1, tabs')))
 \<and> (table_loop b (ps @ [q]) acc = Inr (b2, tabs2) \<longrightarrow>
      (\<exists>b3 t3 b4 k v. table_loop b ps acc = Inr (b3, t3) \<and> traverse b3 q = Inr b4
          \<and> arg_table b4 = Holds (k, v) \<and> tabs2 = AList.update k v t3
          \<and> map_of tabs2 k = Some v))"
proof (intro conjI impI)
  assume "parse_metadata_file ls = Inr (p, ts)"
  then show "length ts = length (filter is_arg_table_header ls)"
    by (rule parse_metadata_file_keeps_all)
next
  assume "parse_metadata_file (ls1 @ line # ls2) = Inr (p', ts') \<and> is_arg_table_header line
      \<and> parse_metadata_file ls1 = Inr (p1, ts1)"
  then show "\<exists>later. ts' = ts1 @ later"
    using parse_metadata_file_prefix by blast
next
  assume "traverse b (TablePropertiesOp n t body) = Inr b'"
  then show "\<exists>props. map_of (meta_data b') n = Some props \<and> distinct (map fst (arg_tables props))"
    by (rule traverse_table_properties_distinct)
next
  assume "table_loop b ps acc = Inr (b1, tabs)"
  then show "\<exists>tabs'. table_loop b ps acc' = Inr (b1, tabs')"
    by (rule table_loop_any_acc)
next
  assume "table_loop b (ps @ [q]) acc = Inr (b2, tabs2)"
  then show "\<exists>b3 t3 b4 k v. table_loop b ps acc = Inr (b3, t3) \<and> traverse b3 q = Inr b4
          \<and> arg_table b4 = Holds (k, v) \<and> tabs2 = AList.update k v t3
          \<and> map_of tabs2 k = Some v"
    by (rule table_loop_last_wins)
qed

lemma ex_header: "is_arg_table_header ''[ccpp-arg-table]''"
  by (simp add: is_arg_table_header_def parser_defs)

theorem C8_later_table_replaces_earlier_witness:
  "(\<exists>p ts. parse_metadata_file ex_metadata_file = Inr (p, ts)
       \<and> length ts = length (filter is_arg_table_header ex_metadata_file)
       \<and> (\<exists>p1 ts1 later. parse_metadata_file ex_metadata_head = Inr (p1, ts1)
              \<and> length ts1 = 1 \<and> ts = ts1 @ later))
 \<and> (\<exists>b'. traverse initial_builder ex_metadata_op = Inr b'
       \<and> (\<exists>props. map_of (meta_data b') ''s'' = Some props
              \<and> distinct (map fst (arg_tables props))))
 \<and> (\<exists>b1 tabs tabs'.
        table_loop (initial_builder\<lparr>arg_table := IsNone\<rparr>) [ex_first_table] [] = Inr (b1, tabs)
      \<and> table_loop (initial_builder\<lparr>arg_table := IsNone\<rparr>) [ex_first_table] tabs = Inr (b1, tabs'))
 \<and> (\<exists>b2 tabs2 b3 t3 b4 k v.
        table_loop (initial_builder\<lparr>arg_table := IsNone\<rparr>) [ex_first_table, ex_second_table] []
          = Inr (b2, tabs2)
      \<and> table_loop (initial_builder\<lparr>arg_table := IsNone\<rparr>) [ex_first_table] [] = Inr (b3, t3)
      \<and> traverse b3 ex_second_table = Inr b4 \<and> arg_table b4 = Holds (k, v)
      \<and> tabs2 = AList.update k v t3 \<and> map_of tabs2 k = Some v)"
proof -
  have "\<exists>p ts. parse_metadata_file ex_metadata_file = Inr (p, ts)"
    by (simp add: ex_metadata_file_def ex_metadata_head_def ex_metadata_tail_def parser_defs
        eval_defs)
  then obtain p ts where parsed: "parse_metadata_file ex_metadata_file = Inr (p, ts)" by blast
  have "\<exists>p1 ts1. parse_metadata_file ex_metadata_head = Inr (p1, ts1) \<and> length ts1 = 1"
    by (simp add: ex_metadata_head_def parser_defs eval_defs)
  then obtain p1 ts1 where head: "parse_metadata_file ex_metadata_head = Inr (p1, ts1)"
    and one_table: "length ts1 = 1" by blast
  have "\<exists>b'. traverse initial_builder ex_metadata_op = Inr b'"
    by (simp add: ex_metadata_op_def ex_first_table_def ex_second_table_def parser_defs eval_defs)
  then obtain b' where built: "traverse initial_builder ex_metadata_op = Inr b'" by blast
  have "\<exists>b1 tabs. table_loop (initial_builder\<lparr>arg_table := IsNone\<rparr>) [ex_first_table] []
           = Inr (b1, tabs)"
    by (simp add: ex_first_table_def parser_defs eval_defs)
  then obtain b1 tabs where
    one: "table_loop (initial_builder\<lparr>arg_table := IsNone\<rparr>) [ex_first_table] [] = Inr (b1, tabs)"
    by blast
  have "\<exists>b2 tabs2. table_loop (initial_builder\<lparr>arg_table := IsNone\<rparr>)
           ([ex_first_table] @ [ex_second_table]) [] = Inr (b2, tabs2)"
    by (simp add: ex_first_table_def ex_second_table_def parser_defs eval_defs)
  then obtain b2 tabs2 where
    two: "table_loop (initial_builder\<lparr>arg_table := IsNone\<rparr>)
           ([ex_first_table] @ [ex_second_table]) [] = Inr (b2, tabs2)"
    by blast
  note facts = C8_later_table_replaces_earlier
    [where ls = ex_metadata_file and p = p and ts = ts
       and ?ls1.0 = ex_metadata_head and line = "''[ccpp-arg-table]''"
       and ?ls2.0 = ex_metadata_tail and p' = p and ts' = ts and ?p1.0 = p1 and ?ts1.0 = ts1
       and b = "initial_builder\<lparr>arg_table := IsNone\<rparr>" and n = "''s''" and t = "''scheme''"
       and body = "[ex_first_table, ex_second_table]" and b' = b'
       and ps = "[ex_first_table]" and acc = "[]" and ?b1.0 = b1 and tabs = tabs and acc' = tabs
       and q = ex_second_table and ?b2.0 = b2 and ?tabs2.0 = tabs2]
  have same: "traverse (initial_builder\<lparr>arg_table := IsNone\<rparr>) ex_metadata_op
                = traverse initial_builder ex_metadata_op"
    by (simp add: ex_metadata_op_def)
  from facts parsed have A: "length ts = length (filter is_arg_table_header ex_metadata_file)"
    by blast
  from parsed have split: "parse_metadata_file (ex_metadata_head @ ''[ccpp-arg-table]'' # ex_metadata_tail)
      = Inr (p, ts)" by (simp add: ex_metadata_file_def)
  from facts split ex_header head have O: "\<exists>later. ts = ts1 @ later" by blast
  from facts built same have B: "\<exists>props. map_of (meta_data b') ''s'' = Some props
              \<and> distinct (map fst (arg_tables props))"
    unfolding ex_metadata_op_def by simp
  from facts one have C: "\<exists>tabs'. table_loop (initial_builder\<lparr>arg_table := IsNone\<rparr>)
          [ex_first_table] tabs = Inr (b1, tabs')"
    by blast
  from facts two have D: "\<exists>b3 t3 b4 k v.
        table_loop (initial_builder\<lparr>arg_table := IsNone\<rparr>) [ex_first_table] [] = Inr (b3, t3)
      \<and> traverse b3 ex_second_table = Inr b4 \<and> arg_table b4 = Holds (k, v)
      \<and> tabs2 = AList.update k v t3 \<and> map_of tabs2 k = Some v"
    by blast
  from two have two': "table_loop (initial_builder\<lparr>arg_table := IsNone\<rparr>)
      [ex_first_table, ex_second_table] [] = Inr (b2, tabs2)" by simp
  from parsed A head one_table O built B one C two' D show ?thesis by blast
qed

text \<open>
  C8, as stated, fails: a file with two argument tables of the name \<open>s_init\<close> is parsed
  without error and both tables are kept, the one with \<open>errflg\<close> before the one with
  \<open>errmsg\<close> as in the file; the builder accepts the tree of the same unit and records the
  second table only.
\<close>

theorem C8_duplicate_table_is_accepted:
  "parsed_tables (parse_metadata_file ex_metadata_file)
     = Inr [(Inr ''s_init'', [''errflg'']), (Inr ''s_init'', [''errmsg''])]
 \<and> built_tables (traverse initial_builder ex_metadata_op)
     = Inr [(''s'', [(''s_init'', [''errmsg''])])]"
  by (simp add: parsed_tables_def built_tables_def ex_metadata_file_def ex_metadata_head_def
      ex_metadata_tail_def ex_metadata_op_def ex_first_table_def ex_second_table_def
      parser_defs eval_defs)

end
